theory Spec2Isabelle
  imports Complex_Main
begin

section \<open>Values held by a table cell\<close>

text \<open>
  The three scripts work on pandas tables read from CSV files. A cell of such a table is a
  string, an integer or a float; a missing cell is the float NaN. The only operations the
  scripts apply to a float are \<open>pd.isna\<close> and the comparison \<open>cases <= 0\<close>, so a float is
  represented by its exact value (every finite double is a rational), by one of the two
  infinities, or by NaN. The two zeros are not told apart.
\<close>

datatype pyfloat = Finite rat | PosInf | NegInf | NaN

datatype cell = CStr string | CInt int | CFloat pyfloat

fun isna :: "pyfloat \<Rightarrow> bool" where
  "isna NaN = True"
| "isna _ = False"

text \<open>\<open>x <= 0\<close> on floats: false for NaN, as every comparison with NaN is.\<close>

fun le_zero :: "pyfloat \<Rightarrow> bool" where
  "le_zero (Finite q) = (q \<le> 0)"
| "le_zero NegInf = True"
| "le_zero PosInf = False"
| "le_zero NaN = False"

text \<open>A float that is a number strictly above zero.\<close>

fun positive :: "pyfloat \<Rightarrow> bool" where
  "positive (Finite q) = (0 < q)"
| "positive PosInf = True"
| "positive NegInf = False"
| "positive NaN = False"

text \<open>
  Three functions of Python and pandas are used by the scripts and are not part of the
  repository: \<open>float(s)\<close> on a string (\<open>None\<close> stands for the ValueError it raises on a
  string that is no number), \<open>str(x)\<close> on a float, and
  \<open>pd.to_datetime(col).dt.strftime('%Y-%m-%d')\<close> on a whole column (\<open>None\<close> stands for any
  exception it raises). They are parameters of the model, collected in one record.
\<close>

record pylib =
  float_str :: "string \<Rightarrow> pyfloat option"
  str_float :: "pyfloat \<Rightarrow> string"
  to_datetime_strftime :: "cell list \<Rightarrow> cell list option"

text \<open>The exceptions of the scripts, and the critical error that the column checks of
  \<open>add_account_ids.py\<close> print before they return.\<close>

datatype error =
  MissingColumn string | KeyError string | ValueError | TypeError | OverflowError

text \<open>
  \<open>float(n)\<close> on an integer is the double nearest to \<open>n\<close>, a tie going to the double with
  an even mantissa: an integer of more than 53 bits keeps its 53 leading bits, rounded on
  the bits it loses. An integer that rounds to \<open>2^1024\<close> or more is beyond the largest
  double, and \<open>float\<close> raises an OverflowError.
\<close>

fun bit_length :: "nat \<Rightarrow> nat" where
  "bit_length n = (if n = 0 then 0 else Suc (bit_length (n div 2)))"

declare bit_length.simps [simp del]

definition round_double :: "nat \<Rightarrow> nat" where
  "round_double n =
     (if bit_length n \<le> 53 then n
      else
        let s = bit_length n - 53; q = n div 2 ^ s; r = n mod 2 ^ s; h = 2 ^ (s - 1)
        in (if h < r \<or> (r = h \<and> odd q) then q + 1 else q) * 2 ^ s)"

definition float_int :: "int \<Rightarrow> error + pyfloat" where
  "float_int n =
     (let v = round_double (nat \<bar>n\<bar>)
      in if 1024 < bit_length v then Inl OverflowError
         else Inr (Finite (if n < 0 then - of_nat v else of_nat v)))"

text \<open>
  \<open>float(v)\<close> on a cell: the ValueError of a string that is no number, the OverflowError
  of an integer beyond the doubles, or the float.
\<close>

fun py_float :: "pylib \<Rightarrow> cell \<Rightarrow> error + pyfloat" where
  "py_float L (CStr s) = (case float_str L s of None \<Rightarrow> Inl ValueError | Some x \<Rightarrow> Inr x)"
| "py_float L (CInt n) = float_int n"
| "py_float L (CFloat x) = Inr x"

section \<open>Strings\<close>

text \<open>
  Strings are lists of 8-bit characters, so the model covers ASCII text: \<open>str.lower\<close>
  maps \<open>A\<close>..\<open>Z\<close> to \<open>a\<close>..\<open>z\<close> and leaves every other character alone, and
  \<open>str.strip\<close> removes the ASCII characters for which \<open>str.isspace\<close> holds (tab, line
  feed, vertical tab, form feed, carriage return, the four separators \<open>0x1c\<close>..\<open>0x1f\<close> and
  the space) from both ends.
\<close>

definition lower_char :: "char \<Rightarrow> char" where
  \<comment> \<open>adding 32 to a code between 65 and 90 sets its bit of weight 32, which is clear there\<close>
  "lower_char c =
     (let n = (of_char c :: nat) in
      if 65 \<le> n \<and> n \<le> 90
      then (case c of Char b0 b1 b2 b3 b4 b5 b6 b7 \<Rightarrow> Char b0 b1 b2 b3 b4 True b6 b7)
      else c)"

definition lower :: "string \<Rightarrow> string" where
  "lower s = map lower_char s"

definition isspace :: "char \<Rightarrow> bool" where
  "isspace c =
     (let n = (of_char c :: nat) in (9 \<le> n \<and> n \<le> 13) \<or> (28 \<le> n \<and> n \<le> 32))"

definition strip :: "string \<Rightarrow> string" where
  "strip s = rev (dropWhile isspace (rev (dropWhile isspace s)))"

text \<open>\<open>str(n)\<close> on an integer: its decimal digits, with a minus sign when negative.\<close>

definition digit_char :: "nat \<Rightarrow> char" where
  "digit_char d = ''0123456789'' ! d"

fun digits :: "nat \<Rightarrow> string" where
  "digits n = (if n < 10 then [digit_char n] else digits (n div 10) @ [digit_char (n mod 10)])"

declare digits.simps [simp del]

definition str_int :: "int \<Rightarrow> string" where
  "str_int n = (if n < 0 then CHR ''-'' # digits (nat (- n)) else digits (nat n))"

text \<open>\<open>Series.astype(str)\<close> on one cell, and the normalisation of a name cell
  (\<open>.astype(str).str.lower().str.strip()\<close>).\<close>

fun astype_str :: "pylib \<Rightarrow> cell \<Rightarrow> string" where
  "astype_str L (CStr s) = s"
| "astype_str L (CInt n) = str_int n"
| "astype_str L (CFloat x) = str_float L x"

definition normalize_name :: "pylib \<Rightarrow> cell \<Rightarrow> cell" where
  "normalize_name L c = CStr (strip (lower (astype_str L c)))"

section \<open>Tables\<close>

text \<open>
  A DataFrame has its column names and its rows; a row (the Series that \<open>iterrows\<close>
  yields) maps a column name to the cell. In a well-formed table every row has exactly the
  columns of the table.
\<close>

type_synonym row = "string \<rightharpoonup> cell"

record dataframe =
  columns :: "string list"
  rows :: "row list"

definition wf_df :: "dataframe \<Rightarrow> bool" where
  "wf_df df = list_all (\<lambda>r. dom r = set (columns df)) (rows df)"

text \<open>\<open>row[c]\<close> raises KeyError for a name the row does not have.\<close>

definition getitem :: "row \<Rightarrow> string \<Rightarrow> error + cell" where
  "getitem r c = (case r c of None \<Rightarrow> Inl (KeyError c) | Some v \<Rightarrow> Inr v)"

text \<open>\<open>df[c]\<close>: the column as a list of cells, KeyError when the table has no such column.\<close>

fun cells_of :: "row list \<Rightarrow> string \<Rightarrow> error + cell list" where
  "cells_of [] c = Inr []"
| "cells_of (r # rs) c =
     (case getitem r c of
        Inl e \<Rightarrow> Inl e
      | Inr v \<Rightarrow> (case cells_of rs c of Inl e \<Rightarrow> Inl e | Inr vs \<Rightarrow> Inr (v # vs)))"

definition getcol :: "dataframe \<Rightarrow> string \<Rightarrow> error + cell list" where
  "getcol df c = (if c \<in> set (columns df) then cells_of (rows df) c else Inl (KeyError c))"

text \<open>\<open>df[dst] = df[src].astype(str).str.lower().str.strip()\<close>: the new column is added
  (or replaces a column of that name), computed cell by cell.\<close>

definition add_match_col :: "pylib \<Rightarrow> string \<Rightarrow> string \<Rightarrow> dataframe \<Rightarrow> error + dataframe" where
  "add_match_col L dst src df =
     (if src \<in> set (columns df)
      then Inr \<lparr>columns = (if dst \<in> set (columns df) then columns df else columns df @ [dst]),
                rows = map (\<lambda>r. r(dst := map_option (normalize_name L) (r src))) (rows df)\<rparr>
      else Inl (KeyError src))"

text \<open>\<open>dict(zip(ks, vs))\<close>: the pairs are inserted in order, a later pair replacing an
  earlier one with the same key.\<close>

definition dict :: "('k \<times> 'v) list \<Rightarrow> ('k \<rightharpoonup> 'v)" where
  "dict kvs = foldl (\<lambda>m (k, v). m(k \<mapsto> v)) Map.empty kvs"

section \<open>add_account_ids.py\<close>

text \<open>The dictionary appended to \<open>matched_depletions_data\<close> for a matched row.\<close>

record depletion =
  account_id :: cell
  order_date :: cell
  cases :: cell
  sku :: cell

text \<open>The three accumulators of the loop over the depletion rows.\<close>

record state =
  matched_depletions_data :: "depletion list"
  unmatched_account_names :: "cell set"
  skipped_due_to_invalid_cases :: nat

definition init_state :: state where
  "init_state = \<lparr>matched_depletions_data = [], unmatched_account_names = {},
                  skipped_due_to_invalid_cases = 0\<rparr>"

text \<open>The column checks made before any row is read: each prints a critical error and
  returns.\<close>

definition check_accounts :: "dataframe \<Rightarrow> error option" where
  "check_accounts accounts_df =
     (if ''id'' \<notin> set (columns accounts_df) then Some (MissingColumn ''id'')
      else if ''std_account_name'' \<notin> set (columns accounts_df)
      then Some (MissingColumn ''std_account_name'')
      else None)"

definition check_depletions :: "dataframe \<Rightarrow> error option" where
  "check_depletions depletions_df =
     (if ''std_account_name_for_lookup'' \<notin> set (columns depletions_df)
      then Some (MissingColumn ''std_account_name_for_lookup'')
      else None)"

text \<open>Step 5, the body of the loop for one row. \<open>account_id_map.get\<close> returns \<open>None\<close> for
  an absent key; \<open>float\<close> raising ValueError or TypeError is caught and counts the row as
  invalid; a KeyError of \<open>row[...]\<close> and an OverflowError of \<open>float\<close> are not caught.\<close>

definition process_row :: "pylib \<Rightarrow> (cell \<rightharpoonup> cell) \<Rightarrow> state \<Rightarrow> row \<Rightarrow> error + state" where
  "process_row L account_id_map st r =
     (case getitem r ''match_col_depletions'' of
        Inl e \<Rightarrow> Inl e
      | Inr normalized_lookup_name \<Rightarrow>
          (case account_id_map normalized_lookup_name of
             None \<Rightarrow>
               (case getitem r ''std_account_name_for_lookup'' of
                  Inl e \<Rightarrow> Inl e
                | Inr nm \<Rightarrow>
                    Inr (st\<lparr>unmatched_account_names := insert nm (unmatched_account_names st)\<rparr>))
           | Some account_id_from_map \<Rightarrow>
               (case getitem r ''cases'' of
                  Inl e \<Rightarrow> Inl e
                | Inr c \<Rightarrow>
                    (case py_float L c of
                       Inl e \<Rightarrow>
                         if e = ValueError \<or> e = TypeError
                         then Inr (st\<lparr>skipped_due_to_invalid_cases :=
                                        skipped_due_to_invalid_cases st + 1\<rparr>)
                         else Inl e
                     | Inr x \<Rightarrow>
                         if isna x \<or> le_zero x
                         then Inr (st\<lparr>skipped_due_to_invalid_cases :=
                                        skipped_due_to_invalid_cases st + 1\<rparr>)
                         else
                           (case getitem r ''order_date'' of
                              Inl e \<Rightarrow> Inl e
                            | Inr d \<Rightarrow>
                                (case getitem r ''sku'' of
                                   Inl e \<Rightarrow> Inl e
                                 | Inr s \<Rightarrow>
                                     Inr (st\<lparr>matched_depletions_data :=
                                               matched_depletions_data st @
                                               [\<lparr>account_id = account_id_from_map,
                                                 order_date = d, cases = CFloat x,
                                                 sku = s\<rparr>]\<rparr>)))))))"

text \<open>The loop: an uncaught exception ends it, and the function with it.\<close>

fun process_rows :: "pylib \<Rightarrow> (cell \<rightharpoonup> cell) \<Rightarrow> state \<Rightarrow> row list \<Rightarrow> error + state" where
  "process_rows L m st [] = Inr st"
| "process_rows L m st (r # rs) =
     (case process_row L m st r of Inl e \<Rightarrow> Inl e | Inr st' \<Rightarrow> process_rows L m st' rs)"

text \<open>Step 4: the lookup dictionary from the normalised names to the identifiers.\<close>

definition account_id_map :: "dataframe \<Rightarrow> error + (cell \<rightharpoonup> cell)" where
  "account_id_map accounts_df =
     (case getcol accounts_df ''match_col_accounts'' of
        Inl e \<Rightarrow> Inl e
      | Inr ks \<Rightarrow>
          (case getcol accounts_df ''id'' of
             Inl e \<Rightarrow> Inl e
           | Inr vs \<Rightarrow> Inr (dict (zip ks vs))))"

text \<open>Steps 3 to 5 on the two tables.\<close>

definition match_depletions :: "pylib \<Rightarrow> dataframe \<Rightarrow> dataframe \<Rightarrow> error + state" where
  "match_depletions L accounts_df depletions_df =
     (case add_match_col L ''match_col_accounts'' ''std_account_name'' accounts_df of
        Inl e \<Rightarrow> Inl e
      | Inr accounts_df' \<Rightarrow>
          (case add_match_col L ''match_col_depletions'' ''std_account_name_for_lookup''
                  depletions_df of
             Inl e \<Rightarrow> Inl e
           | Inr depletions_df' \<Rightarrow>
               (case account_id_map accounts_df' of
                  Inl e \<Rightarrow> Inl e
                | Inr m \<Rightarrow> process_rows L m init_state (rows depletions_df'))))"

text \<open>The reconciliation of the two tables once they are read: the column checks, then
  steps 3 to 5. Its result holds the three outputs (matched, unmatched names, count of
  rows skipped for an invalid quantity).\<close>

definition reconcile :: "pylib \<Rightarrow> dataframe \<Rightarrow> dataframe \<Rightarrow> error + state" where
  "reconcile L accounts_df depletions_df =
     (case check_accounts accounts_df of
        Some e \<Rightarrow> Inl e
      | None \<Rightarrow>
          (case check_depletions depletions_df of
             Some e \<Rightarrow> Inl e
           | None \<Rightarrow> match_depletions L accounts_df depletions_df))"

text \<open>Steps 3 to 5 change the two tables they work on: lines 55 and 56 add the match
  column to each. The reconciliation with that effect made explicit: the two tables as it
  leaves them, and its result.\<close>

definition reconcile_inplace ::
  "pylib \<Rightarrow> dataframe \<times> dataframe \<Rightarrow> (dataframe \<times> dataframe) \<times> (error + state)" where
  "reconcile_inplace L tables =
     (case tables of
        (accounts_df, depletions_df) \<Rightarrow>
          (case check_accounts accounts_df of
             Some e \<Rightarrow> (tables, Inl e)
           | None \<Rightarrow>
               (case check_depletions depletions_df of
                  Some e \<Rightarrow> (tables, Inl e)
                | None \<Rightarrow>
                    (case add_match_col L ''match_col_accounts'' ''std_account_name''
                            accounts_df of
                       Inl e \<Rightarrow> (tables, Inl e)
                     | Inr accounts_df' \<Rightarrow>
                         (case add_match_col L ''match_col_depletions''
                                 ''std_account_name_for_lookup'' depletions_df of
                            Inl e \<Rightarrow> ((accounts_df', depletions_df), Inl e)
                          | Inr depletions_df' \<Rightarrow>
                              ((accounts_df', depletions_df'),
                               (case account_id_map accounts_df' of
                                  Inl e \<Rightarrow> Inl e
                                | Inr m \<Rightarrow>
                                    process_rows L m init_state (rows depletions_df'))))))))"

text \<open>Steps 6 and 7: nothing is produced when no row matched; otherwise the identifier
  and the sku are converted to strings, and the dates are reformatted as a whole column
  (left as they are when the conversion raises, which the script catches).\<close>

definition set_dates :: "depletion list \<Rightarrow> cell list \<Rightarrow> depletion list" where
  "set_dates ms ds = map (\<lambda>(m, d). m\<lparr>order_date := d\<rparr>) (zip ms ds)"

definition finalize :: "pylib \<Rightarrow> depletion list \<Rightarrow> depletion list option" where
  "finalize L ms =
     (if ms = [] then None
      else
        let ms1 = map (\<lambda>m. m\<lparr>account_id := CStr (astype_str L (account_id m))\<rparr>) ms;
            ms2 = (case to_datetime_strftime L (map order_date ms1) of
                     None \<Rightarrow> ms1
                   | Some ds \<Rightarrow> set_dates ms1 ds)
        in Some (map (\<lambda>m. m\<lparr>sku := CStr (astype_str L (sku m))\<rparr>) ms2))"

text \<open>\<open>pd.DataFrame(list of dicts)\<close> for the four keys of a matched row.\<close>

definition row_of :: "depletion \<Rightarrow> row" where
  "row_of m = [''account_id'' \<mapsto> account_id m, ''order_date'' \<mapsto> order_date m,
               ''cases'' \<mapsto> cases m, ''sku'' \<mapsto> sku m]"

definition DataFrame :: "depletion list \<Rightarrow> dataframe" where
  "DataFrame ms = \<lparr>columns = (if ms = [] then [] else [''account_id'', ''order_date'', ''cases'', ''sku'']),
                   rows = map row_of ms\<rparr>"

text \<open>The whole script over the files it reads and writes: a file holds a table. Every
  early return and every uncaught exception leaves the files as they were.\<close>

type_synonym files = "string \<rightharpoonup> dataframe"

definition merge_true_supabase_ids_with_depletions :: "pylib \<Rightarrow> files \<Rightarrow> files" where
  "merge_true_supabase_ids_with_depletions L fs =
     (case fs ''accounts_with_supabase_ids.csv'' of
        None \<Rightarrow> fs
      | Some accounts_df \<Rightarrow>
          (case check_accounts accounts_df of
             Some e \<Rightarrow> fs
           | None \<Rightarrow>
               (case fs ''depletions_to_import.csv'' of
                  None \<Rightarrow> fs
                | Some depletions_df \<Rightarrow>
                    (case check_depletions depletions_df of
                       Some e \<Rightarrow> fs
                     | None \<Rightarrow>
                         (case match_depletions L accounts_df depletions_df of
                            Inl e \<Rightarrow> fs
                          | Inr st \<Rightarrow>
                              (case finalize L (matched_depletions_data st) of
                                 None \<Rightarrow> fs
                               | Some final \<Rightarrow>
                                   fs(''depletions_final_for_import.csv'' \<mapsto>
                                        DataFrame final)))))))"

text \<open>Notions used to state the properties of the reconciliation: the normalised name of
  an account row and of a depletion row (what step 3 stores in the two match columns), the
  dictionary of step 4 for an accounts table as read, whether some account has the
  normalised name of a depletion row, whether the quantity of a row converts to a
  strictly positive number, and what the reconciliation emits for one row of a table
  (the matched output when that row is the only one).\<close>

definition account_key :: "pylib \<Rightarrow> row \<Rightarrow> cell option" where
  "account_key L e = map_option (normalize_name L) (e ''std_account_name'')"

definition lookup_key :: "pylib \<Rightarrow> row \<Rightarrow> cell option" where
  "lookup_key L r = map_option (normalize_name L) (r ''std_account_name_for_lookup'')"

definition lookup_map :: "pylib \<Rightarrow> dataframe \<Rightarrow> error + (cell \<rightharpoonup> cell)" where
  "lookup_map L accounts_df =
     (case add_match_col L ''match_col_accounts'' ''std_account_name'' accounts_df of
        Inl e \<Rightarrow> Inl e
      | Inr accounts_df' \<Rightarrow> account_id_map accounts_df')"

definition has_account :: "pylib \<Rightarrow> dataframe \<Rightarrow> row \<Rightarrow> bool" where
  "has_account L accounts_df r =
     list_ex (\<lambda>e. account_key L e = lookup_key L r) (rows accounts_df)"

definition valid_quantity :: "pylib \<Rightarrow> row \<Rightarrow> bool" where
  "valid_quantity L r =
     (case r ''cases'' of
        None \<Rightarrow> False
      | Some c \<Rightarrow> (case py_float L c of Inl e \<Rightarrow> False | Inr x \<Rightarrow> positive x))"

definition row_output :: "pylib \<Rightarrow> dataframe \<Rightarrow> dataframe \<Rightarrow> row \<Rightarrow> depletion list" where
  "row_output L accounts_df depletions_df r =
     (case reconcile L accounts_df (depletions_df\<lparr>rows := [r]\<rparr>) of
        Inl e \<Rightarrow> []
      | Inr st \<Rightarrow> matched_depletions_data st)"

definition merge_state :: "state \<Rightarrow> state \<Rightarrow> state" where
  "merge_state s t =
     \<lparr>matched_depletions_data = matched_depletions_data s @ matched_depletions_data t,
      unmatched_account_names = unmatched_account_names s \<union> unmatched_account_names t,
      skipped_due_to_invalid_cases =
        skipped_due_to_invalid_cases s + skipped_due_to_invalid_cases t\<rparr>"

text \<open>What one row adds to the accumulators, and the row as the loop sees it, with the
  match column that step 3 added.\<close>

definition out1 :: "pylib \<Rightarrow> (cell \<rightharpoonup> cell) \<Rightarrow> row \<Rightarrow> state" where
  "out1 L m r = (case process_row L m init_state r of Inl e \<Rightarrow> init_state | Inr t \<Rightarrow> t)"

definition ext :: "pylib \<Rightarrow> row \<Rightarrow> row" where
  "ext L r = r(''match_col_depletions'' := lookup_key L r)"

section \<open>merge_account_ids.py\<close>

text \<open>The join of the older script (its lines 27 to 49), on the two tables as read, the
  accounts table holding its \<open>id\<close> column: the dictionary is keyed by the names as they
  stand, and a matched row is appended with its cells as they stand.\<close>

record state1 =
  matched_depletions :: "depletion list"
  skipped_count :: nat

definition process_row1 :: "(cell \<rightharpoonup> cell) \<Rightarrow> state1 \<Rightarrow> row \<Rightarrow> error + state1" where
  "process_row1 m st r =
     (case getitem r ''std_account_name_for_lookup'' of
        Inl e \<Rightarrow> Inl e
      | Inr account_name \<Rightarrow>
          (case m account_name of
             None \<Rightarrow> Inr (st\<lparr>skipped_count := skipped_count st + 1\<rparr>)
           | Some aid \<Rightarrow>
               (case getitem r ''order_date'' of
                  Inl e \<Rightarrow> Inl e
                | Inr d \<Rightarrow>
                    (case getitem r ''cases'' of
                       Inl e \<Rightarrow> Inl e
                     | Inr c \<Rightarrow>
                         (case getitem r ''sku'' of
                            Inl e \<Rightarrow> Inl e
                          | Inr s \<Rightarrow>
                              Inr (st\<lparr>matched_depletions :=
                                        matched_depletions st @
                                        [\<lparr>account_id = aid, order_date = d, cases = c,
                                          sku = s\<rparr>]\<rparr>))))))"

fun process_rows1 :: "(cell \<rightharpoonup> cell) \<Rightarrow> state1 \<Rightarrow> row list \<Rightarrow> error + state1" where
  "process_rows1 m st [] = Inr st"
| "process_rows1 m st (r # rs) =
     (case process_row1 m st r of Inl e \<Rightarrow> Inl e | Inr st' \<Rightarrow> process_rows1 m st' rs)"

definition merge_account_ids_with_depletions :: "dataframe \<Rightarrow> dataframe \<Rightarrow> error + state1" where
  "merge_account_ids_with_depletions accounts_df depletions_df =
     (case getcol accounts_df ''std_account_name'' of
        Inl e \<Rightarrow> Inl e
      | Inr ks \<Rightarrow>
          (case getcol accounts_df ''id'' of
             Inl e \<Rightarrow> Inl e
           | Inr vs \<Rightarrow>
               process_rows1 (dict (zip ks vs))
                 \<lparr>matched_depletions = [], skipped_count = 0\<rparr> (rows depletions_df)))"

section \<open>process_vip_export.py\<close>

text \<open>
  Dates of the proleptic Gregorian calendar, as \<open>datetime\<close> has them, from year 1 to year
  9999. \<open>start_date + timedelta(days=n)\<close> for \<open>n \<ge> 0\<close> is the date \<open>n\<close> days later, an
  OverflowError (\<open>None\<close>) beyond the last day of year 9999.
\<close>

record date =
  year :: nat
  month :: nat
  day :: nat

definition is_leap :: "nat \<Rightarrow> bool" where
  "is_leap y = (y mod 4 = 0 \<and> (y mod 100 \<noteq> 0 \<or> y mod 400 = 0))"

definition days_in_month :: "nat \<Rightarrow> nat \<Rightarrow> nat" where
  "days_in_month y m =
     (if m = 2 then (if is_leap y then 29 else 28)
      else if m = 4 \<or> m = 6 \<or> m = 9 \<or> m = 11 then 30 else 31)"

definition next_day :: "date \<Rightarrow> date" where
  "next_day dt =
     (if day dt < days_in_month (year dt) (month dt) then dt\<lparr>day := day dt + 1\<rparr>
      else if month dt < 12 then dt\<lparr>month := month dt + 1, day := 1\<rparr>
      else \<lparr>year = year dt + 1, month = 1, day = 1\<rparr>)"

fun add_days :: "date \<Rightarrow> nat \<Rightarrow> date option" where
  "add_days dt n =
     (if n = 0 then Some dt
      else if dt = \<lparr>year = 9999, month = 12, day = 31\<rparr> then None
      else add_days (next_day dt) (n - 1))"

declare add_days.simps [simp del]

text \<open>
  \<open>datetime.strptime(s, '%Y-%m-%d')\<close>: four digits, a dash, the month as \<open>1\<close>..\<open>9\<close>,
  \<open>01\<close>..\<open>12\<close>, a dash, the day as \<open>1\<close>..\<open>9\<close>, \<open>01\<close>..\<open>31\<close> or a space and \<open>1\<close>..\<open>9\<close>, and
  nothing else; the date must exist. \<open>None\<close> is the ValueError raised otherwise.
\<close>

definition isdigit :: "char \<Rightarrow> bool" where
  "isdigit c = (let n = (of_char c :: nat) in 48 \<le> n \<and> n \<le> 57)"

definition digit_val :: "char \<Rightarrow> nat" where
  "digit_val c = of_char c - 48"

definition nat_of_digits :: "string \<Rightarrow> nat" where
  "nat_of_digits s = foldl (\<lambda>n c. 10 * n + digit_val c) 0 s"

fun split_dash :: "string \<Rightarrow> string list" where
  "split_dash [] = [[]]"
| "split_dash (c # cs) =
     (if c = CHR ''-'' then [] # split_dash cs
      else (case split_dash cs of [] \<Rightarrow> [[c]] | p # ps \<Rightarrow> (c # p) # ps))"

definition month_field :: "string \<Rightarrow> nat option" where
  "month_field s =
     (if (length s = 1 \<or> length s = 2) \<and> list_all isdigit s \<and>
         1 \<le> nat_of_digits s \<and> nat_of_digits s \<le> 12
      then Some (nat_of_digits s) else None)"

definition day_field :: "string \<Rightarrow> nat option" where
  "day_field s =
     (if (length s = 1 \<or> length s = 2) \<and> list_all isdigit s \<and>
         1 \<le> nat_of_digits s \<and> nat_of_digits s \<le> 31
      then Some (nat_of_digits s)
      else if length s = 2 \<and> hd s = CHR '' '' \<and> isdigit (last s) \<and> 1 \<le> digit_val (last s)
      then Some (digit_val (last s)) else None)"

definition strptime :: "string \<Rightarrow> date option" where
  "strptime s =
     (case split_dash s of
        [ys, ms, ds] \<Rightarrow>
          if length ys = 4 \<and> list_all isdigit ys
          then (case month_field ms of
                  None \<Rightarrow> None
                | Some m \<Rightarrow>
                    (case day_field ds of
                       None \<Rightarrow> None
                     | Some d \<Rightarrow>
                         if 1 \<le> nat_of_digits ys \<and> d \<le> days_in_month (nat_of_digits ys) m
                         then Some \<lparr>year = nat_of_digits ys, month = m, day = d\<rparr>
                         else None))
          else None
      | _ \<Rightarrow> None)"

text \<open>\<open>strftime('%Y-%m-%d')\<close>: the year on four digits, the month and the day on two. (For
  a year below 1000 the C library decides whether the zeros are written; they are here.)\<close>

definition pad :: "nat \<Rightarrow> nat \<Rightarrow> string" where
  "pad w n = replicate (w - length (digits n)) CHR ''0'' @ digits n"

definition strftime :: "date \<Rightarrow> string" where
  "strftime dt = pad 4 (year dt) @ ''-'' @ pad 2 (month dt) @ ''-'' @ pad 2 (day dt)"

text \<open>The filter of line 80, \<open>cases.notna() & (cases != 0)\<close>, on one cell.\<close>

fun notna :: "cell \<Rightarrow> bool" where
  "notna (CFloat NaN) = False"
| "notna _ = True"

fun ne_zero :: "cell \<Rightarrow> bool" where
  "ne_zero (CInt n) = (n \<noteq> 0)"
| "ne_zero (CFloat (Finite q)) = (q \<noteq> 0)"
| "ne_zero _ = True"

text \<open>Lines 72 to 80: the table of one month column, with the date of that month.\<close>

definition month_df :: "dataframe \<Rightarrow> string \<Rightarrow> string \<Rightarrow> error + row list" where
  "month_df df month_col order_date_str =
     (case getcol df ''Retail Accounts'' of
        Inl e \<Rightarrow> Inl e
      | Inr names \<Rightarrow>
          (case getcol df month_col of
             Inl e \<Rightarrow> Inl e
           | Inr cs \<Rightarrow>
               Inr (map (\<lambda>(n, c). [''std_account_name_for_lookup'' \<mapsto> n, ''cases'' \<mapsto> c,
                                    ''order_date'' \<mapsto> CStr order_date_str,
                                    ''sku'' \<mapsto> CStr ''DEFAULT_SKU''])
                      (filter (\<lambda>(n, c). notna c \<and> ne_zero c) (zip names cs)))))"

text \<open>The loop of lines 62 to 82 from index \<open>i\<close> on: a month column the table does not have
  is skipped, and the index moves on all the same.\<close>

fun unpivot :: "dataframe \<Rightarrow> date \<Rightarrow> nat \<Rightarrow> string list \<Rightarrow> error + row list list" where
  "unpivot df start_date i [] = Inr []"
| "unpivot df start_date i (month_col # rest) =
     (if month_col \<notin> set (columns df) then unpivot df start_date (i + 1) rest
      else
        (case add_days start_date (30 * i) of
           None \<Rightarrow> Inl OverflowError
         | Some current_date \<Rightarrow>
             (case month_df df month_col (strftime current_date) of
                Inl e \<Rightarrow> Inl e
              | Inr m \<Rightarrow>
                  (case unpivot df start_date (i + 1) rest of
                     Inl e \<Rightarrow> Inl e
                   | Inr depletions_data \<Rightarrow> Inr (m # depletions_data)))))"

text \<open>Lines 26 to 48: the accounts table, its seven columns renamed, without repeated
  rows (the first of equal rows is kept).\<close>

definition account_columns :: "(string \<times> string) list" where
  "account_columns =
     [(''std_account_name'', ''Retail Accounts''), (''class_of_trade'', ''Classes of Trade''),
      (''on_off_premise'', ''OnOff Premises''), (''address'', ''Address''),
      (''city'', ''City''), (''state'', ''State''), (''zip_code'', ''Zip Code'')]"

definition drop_duplicates :: "'a list \<Rightarrow> 'a list" where
  "drop_duplicates xs = rev (remdups (rev xs))"

definition accounts_to_import :: "dataframe \<Rightarrow> error + dataframe" where
  "accounts_to_import df =
     (case find (\<lambda>c. c \<notin> set (columns df)) (map snd account_columns) of
        Some c \<Rightarrow> Inl (KeyError c)
      | None \<Rightarrow>
          Inr \<lparr>columns = map fst account_columns,
               rows = drop_duplicates
                 (map (\<lambda>r c. case map_of account_columns c of None \<Rightarrow> None | Some c' \<Rightarrow> r c')
                    (rows df))\<rparr>)"

text \<open>The function on the table read from the input file: the two tables it has written
  when it completes. \<open>pd.concat\<close> raises a ValueError when no month column was found.\<close>

definition process_vip_export ::
  "dataframe \<Rightarrow> string \<Rightarrow> string list \<Rightarrow> error + dataframe \<times> dataframe" where
  "process_vip_export df start_date_str month_columns =
     (case accounts_to_import df of
        Inl e \<Rightarrow> Inl e
      | Inr accounts_df \<Rightarrow>
          (case strptime start_date_str of
             None \<Rightarrow> Inl ValueError
           | Some start_date \<Rightarrow>
               (case unpivot df start_date 0 month_columns of
                  Inl e \<Rightarrow> Inl e
                | Inr depletions_data \<Rightarrow>
                    if depletions_data = [] then Inl ValueError
                    else Inr (accounts_df,
                              \<lparr>columns = [''std_account_name_for_lookup'', ''cases'',
                                          ''order_date'', ''sku''],
                               rows = concat depletions_data\<rparr>))))"

text \<open>The rows dated for the month column \<open>c\<close> at index \<open>i\<close>: those of \<open>month_df\<close> with the
  start date moved by thirty days for each index.\<close>

definition dated_rows :: "dataframe \<Rightarrow> date \<Rightarrow> nat \<times> string \<Rightarrow> row list" where
  "dated_rows df start_date ic =
     (case add_days start_date (30 * fst ic) of
        None \<Rightarrow> []
      | Some dt \<Rightarrow> (case month_df df (snd ic) (strftime dt) of Inl e \<Rightarrow> [] | Inr rs \<Rightarrow> rs))"

section \<open>Example data\<close>

text \<open>A library instance for the examples: it converts the strings \<open>3\<close>, \<open>5\<close> and \<open>0\<close>
  as \<open>float\<close> does and raises on every other string (as \<open>float\<close> does on \<open>abc\<close>, the only
  other string the examples convert); it prints the floats NaN and the infinities as
  \<open>str\<close> does, and a finite float as its integer part followed by \<open>.0\<close> (what \<open>str\<close>
  gives for the whole numbers below \<open>10^16\<close>); it leaves a column of dates unchanged, as the
  conversion does for dates already written year-month-day.\<close>

definition demo_lib :: pylib where
  "demo_lib =
     \<lparr>float_str = (\<lambda>s. if s = ''3'' then Some (Finite 3)
                        else if s = ''5'' then Some (Finite 5)
                        else if s = ''0'' then Some (Finite 0)
                        else None),
      str_float = (\<lambda>x. case x of
                          NaN \<Rightarrow> ''nan''
                        | PosInf \<Rightarrow> ''inf''
                        | NegInf \<Rightarrow> ''-inf''
                        | Finite q \<Rightarrow> str_int \<lfloor>q\<rfloor> @ ''.0''),
      to_datetime_strftime = Some\<rparr>"

definition acct :: "string \<Rightarrow> string \<Rightarrow> row" where
  "acct i n = [''id'' \<mapsto> CStr i, ''std_account_name'' \<mapsto> CStr n]"

definition depl :: "string \<Rightarrow> string \<Rightarrow> cell \<Rightarrow> string \<Rightarrow> row" where
  "depl n d q s =
     [''std_account_name_for_lookup'' \<mapsto> CStr n, ''order_date'' \<mapsto> CStr d,
      ''cases'' \<mapsto> q, ''sku'' \<mapsto> CStr s]"

text \<open>Accounts with two names that normalise to the same key, and depletions of every
  kind: matched, unknown name, zero quantity, missing quantity, text quantity.\<close>

definition joes_a1 :: row where
  "joes_a1 = acct ''A1'' ''Joes Bar''"

definition joes_a2 :: row where
  "joes_a2 = acct ''A2'' ''joes bar ''"

definition cafe_b1 :: row where
  "cafe_b1 = acct ''B1'' ''Cafe''"

definition ex_accounts :: dataframe where
  "ex_accounts = \<lparr>columns = [''id'', ''std_account_name''], rows = [joes_a1, joes_a2, cafe_b1]\<rparr>"

definition joes_dep :: row where
  "joes_dep = depl '' JOES BAR'' ''2024-04-01'' (CStr ''3'') ''X''"

definition unknown_dep :: row where
  "unknown_dep = depl ''Unknown Store'' ''2024-04-01'' (CStr ''5'') ''X''"

definition zero_dep :: row where
  "zero_dep = depl ''Cafe'' ''2024-04-01'' (CStr ''0'') ''X''"

definition missing_dep :: row where
  "missing_dep = depl ''cafe'' ''2024-05-01'' (CFloat NaN) ''X''"

definition text_dep :: row where
  "text_dep = depl ''CAFE '' ''2024-05-01'' (CStr ''abc'') ''X''"

definition cafe_dep :: row where
  "cafe_dep = depl ''cafe'' ''2024-05-31'' (CInt 2) ''Y''"

definition ex_depletions :: dataframe where
  "ex_depletions =
     \<lparr>columns = [''std_account_name_for_lookup'', ''order_date'', ''cases'', ''sku''],
      rows = [joes_dep, unknown_dep, zero_dep, missing_dep, text_dep, cafe_dep]\<rparr>"

definition joes_out :: depletion where
  "joes_out = \<lparr>account_id = CStr ''A2'', order_date = CStr ''2024-04-01'',
                cases = CFloat (Finite 3), sku = CStr ''X''\<rparr>"

definition cafe_out :: depletion where
  "cafe_out = \<lparr>account_id = CStr ''B1'', order_date = CStr ''2024-05-31'',
                cases = CFloat (Finite 2), sku = CStr ''Y''\<rparr>"

definition ex_result :: state where
  "ex_result =
     \<lparr>matched_depletions_data = [joes_out, cafe_out],
      unmatched_account_names = {CStr ''Unknown Store''},
      skipped_due_to_invalid_cases = 3\<rparr>"

definition ex_map :: "cell \<rightharpoonup> cell" where
  "ex_map = dict [(CStr ''joes bar'', CStr ''A1''), (CStr ''joes bar'', CStr ''A2''),
                  (CStr ''cafe'', CStr ''B1'')]"

text \<open>A depletions table without the \<open>cases\<close> column, and an accounts table without the
  \<open>id\<close> column.\<close>

definition depl_nc :: "string \<Rightarrow> string \<Rightarrow> string \<Rightarrow> row" where
  "depl_nc n d s =
     [''std_account_name_for_lookup'' \<mapsto> CStr n, ''order_date'' \<mapsto> CStr d, ''sku'' \<mapsto> CStr s]"

definition unknown_nc :: row where
  "unknown_nc = depl_nc ''Unknown Store'' ''2024-04-01'' ''X''"

definition joes_nc :: row where
  "joes_nc = depl_nc ''Joes Bar'' ''2024-04-01'' ''X''"

definition ex_no_cases :: dataframe where
  "ex_no_cases =
     \<lparr>columns = [''std_account_name_for_lookup'', ''order_date'', ''sku''],
      rows = [unknown_nc, joes_nc]\<rparr>"

definition ex_no_id :: dataframe where
  "ex_no_id = \<lparr>columns = [''std_account_name''], rows = [[''std_account_name'' \<mapsto> CStr ''Cafe'']]\<rparr>"

text \<open>A VIP export of one account with three month columns, and the depletion rows the
  script makes of it for the start date 2024-04-01.\<close>

definition ex_vip :: dataframe where
  "ex_vip =
     \<lparr>columns = [''Retail Accounts'', ''Classes of Trade'', ''OnOff Premises'', ''Address'',
                 ''City'', ''State'', ''Zip Code'', ''9L'', ''9L.1'', ''9L.2''],
      rows = [[''Retail Accounts'' \<mapsto> CStr ''Joes Bar'', ''Classes of Trade'' \<mapsto> CStr ''Bar'',
               ''OnOff Premises'' \<mapsto> CStr ''On'', ''Address'' \<mapsto> CStr ''1 Main St'',
               ''City'' \<mapsto> CStr ''Reno'', ''State'' \<mapsto> CStr ''NV'', ''Zip Code'' \<mapsto> CInt 89501,
               ''9L'' \<mapsto> CInt 3, ''9L.1'' \<mapsto> CInt 1, ''9L.2'' \<mapsto> CInt 2]]\<rparr>"

definition vip_row :: "cell \<Rightarrow> string \<Rightarrow> row" where
  "vip_row c d =
     [''std_account_name_for_lookup'' \<mapsto> CStr ''Joes Bar'', ''cases'' \<mapsto> c,
      ''order_date'' \<mapsto> CStr d, ''sku'' \<mapsto> CStr ''DEFAULT_SKU'']"

definition ex_vip_depletions :: dataframe where
  "ex_vip_depletions =
     \<lparr>columns = [''std_account_name_for_lookup'', ''cases'', ''order_date'', ''sku''],
      rows = [vip_row (CInt 3) ''2024-04-01'', vip_row (CInt 1) ''2024-05-01'',
              vip_row (CInt 2) ''2024-05-31'']\<rparr>"

text \<open>One account, a depletion whose name differs from it by letter case only, and a
  depletion of that account with quantity zero.\<close>

definition cafe_zero :: row where
  "cafe_zero = depl ''Cafe'' ''2024-04-01'' (CInt 0) ''X''"

definition ex_cafe_accounts :: dataframe where
  "ex_cafe_accounts = \<lparr>columns = [''id'', ''std_account_name''], rows = [cafe_b1]\<rparr>"

definition ex_case_depletions :: dataframe where
  "ex_case_depletions =
     \<lparr>columns = [''std_account_name_for_lookup'', ''order_date'', ''cases'', ''sku''],
      rows = [cafe_dep]\<rparr>"

definition ex_zero_depletions :: dataframe where
  "ex_zero_depletions =
     \<lparr>columns = [''std_account_name_for_lookup'', ''order_date'', ''cases'', ''sku''],
      rows = [cafe_zero]\<rparr>"

text \<open>A depletion of a known account whose quantity is an integer beyond the floats.\<close>

definition huge_dep :: row where
  "huge_dep = depl ''Cafe'' ''2024-04-01'' (CInt (2 ^ 1024)) ''X''"

definition ex_huge :: dataframe where
  "ex_huge =
     \<lparr>columns = [''std_account_name_for_lookup'', ''order_date'', ''cases'', ''sku''],
      rows = [huge_dep]\<rparr>"

text \<open>A library instance whose date conversion reads a column of dates written
  month/day/year, as pandas does, and writes them year-month-day; it raises on any other
  column, which the script catches, leaving the column as it is. A depletion dated in
  that way, of a numeric sku, with the record appended for it and its row of the final
  table.\<close>

definition us_date :: "string \<Rightarrow> string option" where
  "us_date s =
     (case s of
        [m1, m2, s1, d1, d2, s2, y1, y2, y3, y4] \<Rightarrow>
          if s1 = CHR ''/'' \<and> s2 = CHR ''/''
          then map_option strftime (strptime [y1, y2, y3, y4, CHR ''-'', m1, m2, CHR ''-'', d1, d2])
          else None
      | _ \<Rightarrow> None)"

fun us_cell :: "cell \<Rightarrow> cell option" where
  "us_cell (CStr s) = map_option CStr (us_date s)"
| "us_cell _ = None"

definition us_lib :: pylib where
  "us_lib = demo_lib\<lparr>to_datetime_strftime := (\<lambda>col. those (map us_cell col))\<rparr>"

definition us_dep :: row where
  "us_dep =
     [''std_account_name_for_lookup'' \<mapsto> CStr ''Cafe'', ''order_date'' \<mapsto> CStr ''04/01/2024'',
      ''cases'' \<mapsto> CStr ''3'', ''sku'' \<mapsto> CInt 7]"

definition ex_us_depletions :: dataframe where
  "ex_us_depletions =
     \<lparr>columns = [''std_account_name_for_lookup'', ''order_date'', ''cases'', ''sku''],
      rows = [us_dep]\<rparr>"

definition us_out :: depletion where
  "us_out = \<lparr>account_id = CStr ''B1'', order_date = CStr ''04/01/2024'',
              cases = CFloat (Finite 3), sku = CInt 7\<rparr>"

definition us_final :: depletion where
  "us_final = \<lparr>account_id = CStr ''B1'', order_date = CStr ''2024-04-01'',
                cases = CFloat (Finite 3), sku = CStr ''7''\<rparr>"

definition us_result :: state where
  "us_result = \<lparr>matched_depletions_data = [us_out], unmatched_account_names = {},
                 skipped_due_to_invalid_cases = 0\<rparr>"

section \<open>Properties\<close>

subsection \<open>Integers as floats\<close>

lemma bit_length_0 [simp]: "bit_length 0 = 0"
  by (simp add: bit_length.simps)

lemma bit_length_lt: "n < 2 ^ bit_length n"
proof (induction n rule: bit_length.induct)
  case (1 n)
  show ?case
  proof (cases "n = 0")
    case True
    then show ?thesis by simp
  next
    case False
    with 1 have "n div 2 < 2 ^ bit_length (n div 2)" by simp
    then have "n < 2 * 2 ^ bit_length (n div 2)" by linarith
    with False show ?thesis by (subst bit_length.simps) simp
  qed
qed

lemma bit_length_le: "n < 2 ^ k \<Longrightarrow> bit_length n \<le> k"
proof (induction n arbitrary: k rule: bit_length.induct)
  case (1 n)
  show ?case
  proof (cases "n = 0")
    case True
    then show ?thesis by simp
  next
    case False
    with "1.prems" obtain j where k: "k = Suc j" by (cases k) auto
    with "1.prems" have "n div 2 < 2 ^ j" by simp
    with 1 False have "bit_length (n div 2) \<le> j" by simp
    with False k show ?thesis by (subst bit_length.simps) simp
  qed
qed

lemma bit_length_gt: "2 ^ k \<le> n \<Longrightarrow> k < bit_length n"
proof -
  assume "2 ^ k \<le> n"
  with bit_length_lt [of n] have "(2::nat) ^ k < 2 ^ bit_length n" by linarith
  then show ?thesis by simp
qed

lemma float_int_small:
  assumes "\<bar>n\<bar> < 2 ^ 53"
  shows "float_int n = Inr (Finite (of_int n))"
proof -
  from assms have "nat \<bar>n\<bar> < 2 ^ 53" by (simp add: nat_less_iff)
  then have b: "bit_length (nat \<bar>n\<bar>) \<le> 53" by (rule bit_length_le)
  then have r: "round_double (nat \<bar>n\<bar>) = nat \<bar>n\<bar>" by (simp add: round_double_def)
  from b have "\<not> 1024 < bit_length (nat \<bar>n\<bar>)" by simp
  with r show ?thesis by (cases "n < 0") (simp_all add: float_int_def Let_def)
qed

lemma round_double_ge:
  assumes "53 < bit_length n"
  shows "2 ^ (bit_length n - 1) \<le> round_double n"
proof -
  let ?s = "bit_length n - 53"
  have "bit_length n - 1 < bit_length n" using assms by simp
  have lo: "2 ^ (bit_length n - 1) \<le> n"
  proof (rule ccontr)
    assume "\<not> 2 ^ (bit_length n - 1) \<le> n"
    then have "n < 2 ^ (bit_length n - 1)" by simp
    from bit_length_le [OF this] assms show False by simp
  qed
  define p :: nat where "p = 2 ^ 52"
  define t :: nat where "t = 2 ^ ?s"
  have t0: "0 < t" by (simp add: t_def)
  from assms have "bit_length n - 1 = 52 + ?s" by simp
  then have "(2::nat) ^ (bit_length n - 1) = 2 ^ (52 + ?s)" by (simp only:)
  then have split: "(2::nat) ^ (bit_length n - 1) = p * t"
    by (simp only: power_add p_def t_def)
  with lo have "p * t \<le> n" by (simp only:)
  with t0 have "p \<le> n div t" by (simp add: less_eq_div_iff_mult_less_eq)
  then have "p * t \<le> (n div t) * t" by simp
  moreover have "round_double n =
      (if 2 ^ (?s - 1) < n mod t \<or> (n mod t = 2 ^ (?s - 1) \<and> odd (n div t))
       then n div t + 1 else n div t) * t"
    using assms by (simp add: round_double_def Let_def t_def)
  then have "(n div t) * t \<le> round_double n" by simp
  ultimately have "p * t \<le> round_double n" by linarith
  then show ?thesis by (simp only: split)
qed

lemma float_int_huge:
  assumes "2 ^ 1024 \<le> \<bar>n\<bar>"
  shows "float_int n = Inl OverflowError"
proof -
  have "int (2 ^ 1024) \<le> \<bar>n\<bar>" using assms by (simp only: of_nat_power of_nat_numeral)
  then have "2 ^ 1024 \<le> nat \<bar>n\<bar>" by (simp only: le_nat_iff of_nat_0_le_iff)
  then have b: "1024 < bit_length (nat \<bar>n\<bar>)" by (rule bit_length_gt)
  then have b53: "53 < bit_length (nat \<bar>n\<bar>)" by linarith
  from b have "1024 \<le> bit_length (nat \<bar>n\<bar>) - 1" by linarith
  then have "(2::nat) ^ 1024 \<le> 2 ^ (bit_length (nat \<bar>n\<bar>) - 1)"
    by (rule power_increasing) (rule one_le_numeral)
  with round_double_ge [OF b53]
  have "2 ^ 1024 \<le> round_double (nat \<bar>n\<bar>)" by (rule order_trans [rotated])
  then have "1024 < bit_length (round_double (nat \<bar>n\<bar>))" by (rule bit_length_gt)
  then show ?thesis by (simp only: float_int_def Let_def if_True)
qed

subsection \<open>Dictionaries and the loop\<close>

lemma foldl_upd_map_of:
  "foldl (\<lambda>m (k, v). m(k \<mapsto> v)) m0 kvs = m0 ++ map_of (rev kvs)"
  by (induction kvs arbitrary: m0) (auto simp: map_add_upd_left fun_eq_iff map_add_def split: option.splits)

lemma dict_map_of: "dict kvs = map_of (rev kvs)"
  by (simp add: dict_def foldl_upd_map_of)

lemma dict_None_iff: "dict kvs k = None \<longleftrightarrow> k \<notin> fst ` set kvs"
  by (simp add: dict_map_of map_of_eq_None_iff)

lemma dict_append: "dict (xs @ ys) = dict xs ++ dict ys"
  by (simp add: dict_map_of)

lemma dict_last:
  "k \<notin> fst ` set ys \<Longrightarrow> dict (xs @ (k, v) # ys) k = Some v"
proof -
  assume "k \<notin> fst ` set ys"
  then have "map_of (rev ys) k = None" by (simp add: map_of_eq_None_iff)
  then show ?thesis by (simp add: dict_map_of map_add_def)
qed

lemma dict_SomeD:
  "dict kvs k = Some v \<Longrightarrow> \<exists>xs ys. kvs = xs @ (k, v) # ys \<and> k \<notin> fst ` set ys"
proof (induction kvs rule: rev_induct)
  case Nil
  then show ?case by (simp add: dict_map_of)
next
  case (snoc x kvs)
  obtain k' v' where x: "x = (k', v')" by (cases x)
  show ?case
  proof (cases "k' = k")
    case True
    with snoc.prems x have "v' = v" by (simp add: dict_map_of)
    with True x have "kvs @ [x] = kvs @ (k, v) # [] \<and> k \<notin> fst ` set []" by simp
    then show ?thesis by blast
  next
    case False
    with snoc.prems x have "dict kvs k = Some v" by (simp add: dict_map_of)
    then obtain xs ys where "kvs = xs @ (k, v) # ys" "k \<notin> fst ` set ys"
      using snoc.IH by blast
    with False x have "kvs @ [x] = xs @ (k, v) # (ys @ [x]) \<and> k \<notin> fst ` set (ys @ [x])"
      by auto
    then show ?thesis by blast
  qed
qed

lemma process_row_merge:
  "process_row L m st r =
     (case process_row L m init_state r of Inl e \<Rightarrow> Inl e | Inr t \<Rightarrow> Inr (merge_state st t))"
  by (simp add: process_row_def init_state_def merge_state_def split: sum.splits option.splits)

lemma process_rows_ok_iff:
  "(\<exists>st'. process_rows L m st rs = Inr st') \<longleftrightarrow>
   (\<forall>r\<in>set rs. \<exists>t. process_row L m init_state r = Inr t)"
proof (induction rs arbitrary: st)
  case Nil
  then show ?case by simp
next
  case (Cons r rs)
  show ?case
  proof (cases "process_row L m init_state r")
    case (Inl e)
    then have "process_row L m st r = Inl e" by (subst process_row_merge) simp
    with Inl show ?thesis by auto
  next
    case (Inr t)
    then have "process_row L m st r = Inr (merge_state st t)" by (subst process_row_merge) simp
    with Inr Cons.IH [of "merge_state st t"] show ?thesis by simp
  qed
qed

lemma process_rows_matched:
  "process_rows L m st rs = Inr st' \<Longrightarrow>
   matched_depletions_data st' =
     matched_depletions_data st @ concat (map (\<lambda>r. matched_depletions_data (out1 L m r)) rs)"
proof (induction rs arbitrary: st)
  case Nil
  then show ?case by simp
next
  case (Cons r rs)
  from Cons.prems obtain s1 where s1: "process_row L m st r = Inr s1"
    and rest: "process_rows L m s1 rs = Inr st'"
    by (auto split: sum.splits)
  from s1 obtain t where t: "process_row L m init_state r = Inr t" and "s1 = merge_state st t"
    by (subst (asm) process_row_merge) (auto split: sum.splits)
  with Cons.IH [OF rest] show ?case by (simp add: out1_def merge_state_def)
qed

lemma process_rows_skipped:
  "process_rows L m st rs = Inr st' \<Longrightarrow>
   skipped_due_to_invalid_cases st' =
     skipped_due_to_invalid_cases st + sum_list (map (\<lambda>r. skipped_due_to_invalid_cases (out1 L m r)) rs)"
proof (induction rs arbitrary: st)
  case Nil
  then show ?case by simp
next
  case (Cons r rs)
  from Cons.prems obtain s1 where s1: "process_row L m st r = Inr s1"
    and rest: "process_rows L m s1 rs = Inr st'"
    by (auto split: sum.splits)
  from s1 obtain t where t: "process_row L m init_state r = Inr t" and "s1 = merge_state st t"
    by (subst (asm) process_row_merge) (auto split: sum.splits)
  with Cons.IH [OF rest] show ?case by (simp add: out1_def merge_state_def)
qed

lemma process_rows_unmatched:
  "process_rows L m st rs = Inr st' \<Longrightarrow>
   unmatched_account_names st' =
     unmatched_account_names st \<union> (\<Union>r\<in>set rs. unmatched_account_names (out1 L m r))"
proof (induction rs arbitrary: st)
  case Nil
  then show ?case by simp
next
  case (Cons r rs)
  from Cons.prems obtain s1 where s1: "process_row L m st r = Inr s1"
    and rest: "process_rows L m s1 rs = Inr st'"
    by (auto split: sum.splits)
  from s1 obtain t where t: "process_row L m init_state r = Inr t" and "s1 = merge_state st t"
    by (subst (asm) process_row_merge) (auto split: sum.splits)
  with Cons.IH [OF rest] show ?case by (auto simp add: out1_def merge_state_def)
qed

lemma reconcile_eq:
  "reconcile L a d =
     (case check_accounts a of
        Some e \<Rightarrow> Inl e
      | None \<Rightarrow>
          (case check_depletions d of
             Some e \<Rightarrow> Inl e
           | None \<Rightarrow>
               (case lookup_map L a of
                  Inl e \<Rightarrow> Inl e
                | Inr m \<Rightarrow> process_rows L m init_state (map (ext L) (rows d)))))"
proof (cases "check_accounts a")
  case (Some e)
  then show ?thesis by (simp add: reconcile_def)
next
  case None
  note ca = this
  show ?thesis
  proof (cases "check_depletions d")
    case (Some e)
    with ca show ?thesis by (simp add: reconcile_def)
  next
    case None
    from ca have sa: "''std_account_name'' \<in> set (columns a)"
      by (simp add: check_accounts_def split: if_splits)
    from None have sd: "''std_account_name_for_lookup'' \<in> set (columns d)"
      by (simp add: check_depletions_def split: if_splits)
    have rs: "map (\<lambda>r. r(''match_col_depletions'' :=
                 map_option (normalize_name L) (r ''std_account_name_for_lookup''))) (rows d)
              = map (ext L) (rows d)"
      by (simp add: ext_def lookup_key_def)
    from sa obtain a' where a': "add_match_col L ''match_col_accounts'' ''std_account_name'' a = Inr a'"
      by (simp add: add_match_col_def)
    from sd have d': "add_match_col L ''match_col_depletions'' ''std_account_name_for_lookup'' d
        = Inr \<lparr>columns = (if ''match_col_depletions'' \<in> set (columns d) then columns d
                           else columns d @ [''match_col_depletions'']),
               rows = map (ext L) (rows d)\<rparr>"
      by (simp add: add_match_col_def rs)
    show ?thesis
      by (simp add: reconcile_def ca None match_depletions_def lookup_map_def a' d'
          split: sum.splits)
  qed
qed

lemma cells_of_Inr:
  "cells_of rs c = Inr vs \<Longrightarrow> map (\<lambda>r. r c) rs = map Some vs"
  by (induction rs arbitrary: vs) (auto simp: getitem_def split: option.splits sum.splits)

lemma lookup_map_Inr:
  assumes "lookup_map L a = Inr m"
  shows "\<exists>kvs. m = dict kvs \<and> map (\<lambda>e. (account_key L e, e ''id'')) (rows a) = map (\<lambda>(k, v). (Some k, Some v)) kvs"
proof -
  let ?rs = "map (\<lambda>r. r(''match_col_accounts'' := map_option (normalize_name L) (r ''std_account_name''))) (rows a)"
  from assms obtain ks vs where ks: "cells_of ?rs ''match_col_accounts'' = Inr ks"
    and vs: "cells_of ?rs ''id'' = Inr vs" and m: "m = dict (zip ks vs)"
    by (auto simp: lookup_map_def add_match_col_def account_id_map_def getcol_def
        split: if_splits sum.splits)
  from cells_of_Inr [OF ks] have k: "map (account_key L) (rows a) = map Some ks"
    by (simp add: account_key_def [abs_def] comp_def)
  from cells_of_Inr [OF vs] have v: "map (\<lambda>e. e ''id'') (rows a) = map Some vs"
    by (simp add: comp_def)
  from k have lk: "length ks = length (rows a)" by (metis length_map)
  from v have lv: "length vs = length (rows a)" by (metis length_map)
  have "map (\<lambda>e. (account_key L e, e ''id'')) (rows a) = map (\<lambda>(k, v). (Some k, Some v)) (zip ks vs)"
  proof (rule nth_equalityI)
    show "length (map (\<lambda>e. (account_key L e, e ''id'')) (rows a)) = length (map (\<lambda>(k, v). (Some k, Some v)) (zip ks vs))"
      using lk lv by simp
  next
    fix i assume "i < length (map (\<lambda>e. (account_key L e, e ''id'')) (rows a))"
    then have i: "i < length (rows a)" by simp
    from k i lk have "account_key L (rows a ! i) = Some (ks ! i)"
      by (metis nth_map)
    moreover from v i lv have "(rows a ! i) ''id'' = Some (vs ! i)"
      by (metis nth_map)
    ultimately show "map (\<lambda>e. (account_key L e, e ''id'')) (rows a) ! i = map (\<lambda>(k, v). (Some k, Some v)) (zip ks vs) ! i"
      using i lk lv by simp
  qed
  with m show ?thesis by blast
qed

lemma lookup_map_None_iff:
  assumes "lookup_map L a = Inr m"
  shows "m k = None \<longleftrightarrow> (\<forall>e\<in>set (rows a). account_key L e \<noteq> Some k)"
proof -
  from lookup_map_Inr [OF assms] obtain kvs where m: "m = dict kvs"
    and eq: "map (\<lambda>e. (account_key L e, e ''id'')) (rows a) = map (\<lambda>(k, v). (Some k, Some v)) kvs"
    by blast
  from eq have "map fst (map (\<lambda>e. (account_key L e, e ''id'')) (rows a))
      = map fst (map (\<lambda>(k, v). (Some k, Some v)) kvs)" by simp
  then have "map (account_key L) (rows a) = map (\<lambda>kv. Some (fst kv)) kvs"
    by (simp add: comp_def case_prod_beta)
  then have "set (map (account_key L) (rows a)) = set (map (\<lambda>kv. Some (fst kv)) kvs)"
    by simp
  then have "account_key L ` set (rows a) = Some ` fst ` set kvs"
    by (simp add: image_image)
  then have "k \<in> fst ` set kvs \<longleftrightarrow> Some k \<in> account_key L ` set (rows a)"
    by auto
  moreover have "Some k \<in> account_key L ` set (rows a) \<longleftrightarrow>
      \<not> (\<forall>e\<in>set (rows a). account_key L e \<noteq> Some k)"
    by force
  ultimately show ?thesis by (simp add: m dict_None_iff)
qed

lemma lookup_map_SomeD:
  assumes "lookup_map L a = Inr m" and "m k = Some v"
  shows "\<exists>es1 e es2. rows a = es1 @ e # es2 \<and> account_key L e = Some k \<and> e ''id'' = Some v \<and>
           (\<forall>e'\<in>set es2. account_key L e' \<noteq> Some k)"
proof -
  let ?f = "\<lambda>e. (account_key L e, e ''id'')"
  let ?g = "\<lambda>(k, v). (Some k, Some v) :: cell option \<times> cell option"
  from lookup_map_Inr [OF assms(1)] obtain kvs where m: "m = dict kvs"
    and eq: "map ?f (rows a) = map ?g kvs"
    by blast
  from assms(2) m obtain xs ys where kvs: "kvs = xs @ (k, v) # ys" and k: "k \<notin> fst ` set ys"
    using dict_SomeD by metis
  from eq kvs have "map ?f (rows a) = map ?g xs @ ?g (k, v) # map ?g ys" by simp
  then obtain es1 e es2 where rows: "rows a = es1 @ e # es2" and e: "?f e = ?g (k, v)"
    and es2: "map ?f es2 = map ?g ys"
    by (auto simp: map_eq_append_conv map_eq_Cons_conv)
  have "account_key L e' \<noteq> Some k" if "e' \<in> set es2" for e'
  proof
    assume "account_key L e' = Some k"
    with that have "(Some k, e' ''id'') \<in> set (map ?f es2)" by force
    with es2 have "(Some k, e' ''id'') \<in> set (map ?g ys)" by simp
    then have "k \<in> fst ` set ys" by force
    with k show False by simp
  qed
  with rows e show ?thesis by auto
qed

lemma lookup_map_last:
  assumes "lookup_map L a = Inr m" and "rows a = es1 @ e # es2"
    and "account_key L e = Some k" and "\<forall>e'\<in>set es2. account_key L e' \<noteq> Some k"
  shows "m k = e ''id''"
proof -
  let ?f = "\<lambda>e. (account_key L e, e ''id'')"
  let ?g = "\<lambda>(k, v). (Some k, Some v) :: cell option \<times> cell option"
  from lookup_map_Inr [OF assms(1)] obtain kvs where m: "m = dict kvs"
    and eq: "map ?f (rows a) = map ?g kvs"
    by blast
  from eq assms(2) have "map ?g kvs = map ?f es1 @ ?f e # map ?f es2" by simp
  then obtain xs kv ys where kvs: "kvs = xs @ kv # ys" and kv: "?g kv = ?f e"
    and ys: "map ?g ys = map ?f es2"
    by (auto simp: map_eq_append_conv map_eq_Cons_conv)
  obtain k' v where kv': "kv = (k', v)" by (cases kv)
  with kv assms(3) have k': "k' = k" and v: "e ''id'' = Some v" by simp_all
  have "k \<notin> fst ` set ys"
  proof
    assume "k \<in> fst ` set ys"
    then obtain w where "(k, w) \<in> set ys" by force
    then have "(Some k, Some w) \<in> set (map ?g ys)" by force
    with ys have "(Some k, Some w) \<in> set (map ?f es2)" by simp
    then obtain e' where "e' \<in> set es2" "account_key L e' = Some k" by auto
    with assms(4) show False by blast
  qed
  then have "dict (xs @ (k, v) # ys) k = Some v" by (rule dict_last)
  with m kvs kv' k' v show ?thesis by simp
qed

lemma positive_iff: "positive x \<longleftrightarrow> \<not> (isna x \<or> le_zero x)"
  by (cases x) auto

lemma process_row_ext:
  assumes "process_row L m init_state (ext L r) = Inr t"
  shows "\<exists>k. lookup_key L r = Some k \<and>
     (case m k of
        None \<Rightarrow> (\<exists>nm. r ''std_account_name_for_lookup'' = Some nm \<and>
                  t = init_state\<lparr>unmatched_account_names := {nm}\<rparr>)
      | Some aid \<Rightarrow>
          if valid_quantity L r
          then (\<exists>c x d s. r ''cases'' = Some c \<and> py_float L c = Inr x \<and> positive x \<and>
                  r ''order_date'' = Some d \<and> r ''sku'' = Some s \<and>
                  t = init_state\<lparr>matched_depletions_data :=
                        [\<lparr>account_id = aid, order_date = d, cases = CFloat x, sku = s\<rparr>]\<rparr>)
          else t = init_state\<lparr>skipped_due_to_invalid_cases := 1\<rparr>)"
  using assms
  by (auto simp: process_row_def ext_def getitem_def valid_quantity_def positive_iff init_state_def
      split: option.splits sum.splits if_splits)

subsection \<open>The reconciliation, row by row\<close>

lemma reconcile_InrD:
  assumes "reconcile L a d = Inr res"
  shows "\<exists>m. lookup_map L a = Inr m \<and> check_accounts a = None \<and> check_depletions d = None \<and>
           process_rows L m init_state (map (ext L) (rows d)) = Inr res"
  using assms by (simp add: reconcile_eq split: option.splits sum.splits)

lemma out1_ok:
  assumes "process_rows L m st (map (ext L) rs) = Inr st'" and "r \<in> set rs"
  shows "process_row L m init_state (ext L r) = Inr (out1 L m (ext L r))"
proof -
  from assms(1) have "\<exists>st'. process_rows L m st (map (ext L) rs) = Inr st'" by blast
  then have "\<forall>r\<in>set (map (ext L) rs). \<exists>t. process_row L m init_state r = Inr t"
    by (simp only: process_rows_ok_iff)
  with assms(2) obtain t where "process_row L m init_state (ext L r) = Inr t" by auto
  then show ?thesis by (simp add: out1_def)
qed

lemma row_output_out1:
  assumes "reconcile L a d = Inr res" and "lookup_map L a = Inr m" and "r \<in> set (rows d)"
  shows "row_output L a d r = matched_depletions_data (out1 L m (ext L r))"
proof -
  from reconcile_InrD [OF assms(1)] assms(2)
  have ca: "check_accounts a = None" and cd: "check_depletions d = None"
    and pr: "process_rows L m init_state (map (ext L) (rows d)) = Inr res"
    by auto
  from cd have cd': "check_depletions (d\<lparr>rows := [r]\<rparr>) = None"
    by (simp add: check_depletions_def)
  from out1_ok [OF pr assms(3)] show ?thesis
    by (simp add: row_output_def reconcile_eq ca cd' assms(2))
qed

lemma matched_concat:
  assumes "reconcile L a d = Inr res"
  shows "matched_depletions_data res = concat (map (row_output L a d) (rows d))"
proof -
  from reconcile_InrD [OF assms] obtain m where m: "lookup_map L a = Inr m"
    and pr: "process_rows L m init_state (map (ext L) (rows d)) = Inr res"
    by blast
  have "map (row_output L a d) (rows d) =
        map (\<lambda>r. matched_depletions_data (out1 L m (ext L r))) (rows d)"
    by (intro map_cong refl row_output_out1 [OF assms m])
  with process_rows_matched [OF pr] show ?thesis
    by (simp only: map_map comp_def) (simp add: init_state_def)
qed

lemma row_step:
  assumes "reconcile L a d = Inr res" and "lookup_map L a = Inr m" and "r \<in> set (rows d)"
  shows "process_row L m init_state (ext L r) = Inr (out1 L m (ext L r))"
proof -
  from reconcile_InrD [OF assms(1)] assms(2)
  have pr: "process_rows L m init_state (map (ext L) (rows d)) = Inr res" by auto
  from out1_ok [OF pr assms(3)] show ?thesis .
qed

lemma row_key:
  assumes "reconcile L a d = Inr res" and "r \<in> set (rows d)"
  shows "\<exists>k. lookup_key L r = Some k"
proof -
  from reconcile_InrD [OF assms(1)] obtain m where m: "lookup_map L a = Inr m" by blast
  from process_row_ext [OF row_step [OF assms(1) m assms(2)]] show ?thesis by blast
qed

lemma row_unmatched:
  assumes "reconcile L a d = Inr res" and "lookup_map L a = Inr m" and "r \<in> set (rows d)"
    and "lookup_key L r = Some k" and "m k = None"
  shows "\<exists>nm. r ''std_account_name_for_lookup'' = Some nm \<and>
           out1 L m (ext L r) = init_state\<lparr>unmatched_account_names := {nm}\<rparr>"
  using process_row_ext [OF row_step [OF assms(1-3)]] assms(4,5) by auto

lemma row_invalid:
  assumes "reconcile L a d = Inr res" and "lookup_map L a = Inr m" and "r \<in> set (rows d)"
    and "lookup_key L r = Some k" and "m k = Some aid" and "\<not> valid_quantity L r"
  shows "out1 L m (ext L r) = init_state\<lparr>skipped_due_to_invalid_cases := 1\<rparr>"
  using process_row_ext [OF row_step [OF assms(1-3)]] assms(4-6) by auto

lemma row_matched:
  assumes "reconcile L a d = Inr res" and "lookup_map L a = Inr m" and "r \<in> set (rows d)"
    and "lookup_key L r = Some k" and "m k = Some aid" and "valid_quantity L r"
  shows "\<exists>c x d s. r ''cases'' = Some c \<and> py_float L c = Inr x \<and> positive x \<and>
           r ''order_date'' = Some d \<and> r ''sku'' = Some s \<and>
           out1 L m (ext L r) = init_state\<lparr>matched_depletions_data :=
             [\<lparr>account_id = aid, order_date = d, cases = CFloat x, sku = s\<rparr>]\<rparr>"
  using process_row_ext [OF row_step [OF assms(1-3)]] assms(4-6) by auto

text \<open>A record emitted for a row: the row has a key with an entry in the dictionary and
  a valid quantity, and the record is made of that entry and of the cells of the row.\<close>

lemma row_output_memD:
  assumes "reconcile L a d = Inr res" and "lookup_map L a = Inr m" and "r \<in> set (rows d)"
    and "x \<in> set (row_output L a d r)"
  shows "\<exists>k c v. lookup_key L r = Some k \<and> m k = Some (account_id x) \<and> valid_quantity L r \<and>
           r ''cases'' = Some c \<and> py_float L c = Inr v \<and> positive v \<and> cases x = CFloat v \<and>
           r ''order_date'' = Some (order_date x) \<and> r ''sku'' = Some (sku x) \<and>
           row_output L a d r = [x]"
proof -
  from row_key [OF assms(1,3)] obtain k where k: "lookup_key L r = Some k" by blast
  note ro = row_output_out1 [OF assms(1-3)]
  show ?thesis
  proof (cases "m k")
    case None
    from row_unmatched [OF assms(1-3) k None] ro assms(4) show ?thesis
      by (auto simp: init_state_def)
  next
    case (Some aid)
    show ?thesis
    proof (cases "valid_quantity L r")
      case False
      from row_invalid [OF assms(1-3) k Some False] ro assms(4) show ?thesis
        by (auto simp: init_state_def)
    next
      case True
      from row_matched [OF assms(1-3) k Some True] ro assms(4) k Some True show ?thesis
        by (auto simp: init_state_def)
    qed
  qed
qed

lemma has_account_iff:
  assumes "lookup_map L a = Inr m" and "lookup_key L r = Some k"
  shows "has_account L a r \<longleftrightarrow> m k \<noteq> None"
  using lookup_map_None_iff [OF assms(1), of k] assms(2)
  by (auto simp: has_account_def list_ex_iff)

lemma concat_map_filter_nil:
  "\<forall>x\<in>set xs. \<not> P x \<longrightarrow> f x = [] \<Longrightarrow> concat (map f (filter P xs)) = concat (map f xs)"
  by (induction xs) auto

lemma sum_list_indicator:
  "sum_list (map (\<lambda>x. if P x then 1 else 0) xs) = length (filter P xs)"
  by (induction xs) auto

lemma row_output_rows_irrelevant:
  "row_output L a (d\<lparr>rows := rs\<rparr>) = row_output L a d"
  by (simp add: row_output_def fun_eq_iff)

lemma reconcile_filter:
  assumes "reconcile L a d = Inr res"
    and "\<forall>r\<in>set (rows d). \<not> P r \<longrightarrow> row_output L a d r = []"
  shows "\<exists>res'. reconcile L a (d\<lparr>rows := filter P (rows d)\<rparr>) = Inr res' \<and>
           matched_depletions_data res' = matched_depletions_data res"
proof -
  from reconcile_InrD [OF assms(1)] obtain m where m: "lookup_map L a = Inr m"
    and ca: "check_accounts a = None" and cd: "check_depletions d = None"
    by blast
  let ?d = "d\<lparr>rows := filter P (rows d)\<rparr>"
  have "\<forall>r\<in>set (map (ext L) (filter P (rows d))). \<exists>t. process_row L m init_state r = Inr t"
    using row_step [OF assms(1) m] by auto
  then obtain res' where "process_rows L m init_state (map (ext L) (filter P (rows d))) = Inr res'"
    using process_rows_ok_iff [of L m init_state "map (ext L) (filter P (rows d))"] by blast
  moreover from cd have "check_depletions ?d = None" by (simp add: check_depletions_def)
  ultimately have r': "reconcile L a ?d = Inr res'"
    by (simp add: reconcile_eq ca m)
  have "matched_depletions_data res' = concat (map (row_output L a d) (filter P (rows d)))"
    using matched_concat [OF r'] by (simp add: row_output_rows_irrelevant)
  also have "\<dots> = concat (map (row_output L a d) (rows d))"
    using assms(2) by (rule concat_map_filter_nil)
  also have "\<dots> = matched_depletions_data res"
    using matched_concat [OF assms(1)] by simp
  finally show ?thesis using r' by blast
qed

lemma row_output_unmatched:
  assumes "reconcile L a d = Inr res" and "r \<in> set (rows d)" and "\<not> has_account L a r"
  shows "row_output L a d r = []"
    and "\<exists>nm. r ''std_account_name_for_lookup'' = Some nm \<and> nm \<in> unmatched_account_names res"
proof -
  from reconcile_InrD [OF assms(1)] obtain m where m: "lookup_map L a = Inr m"
    and pr: "process_rows L m init_state (map (ext L) (rows d)) = Inr res"
    by blast
  from row_key [OF assms(1,2)] obtain k where k: "lookup_key L r = Some k" by blast
  with assms(3) has_account_iff [OF m k] have mk: "m k = None" by simp
  from row_unmatched [OF assms(1) m assms(2) k mk] obtain nm where
    nm: "r ''std_account_name_for_lookup'' = Some nm"
    and o: "out1 L m (ext L r) = init_state\<lparr>unmatched_account_names := {nm}\<rparr>"
    by blast
  from o show "row_output L a d r = []"
    by (simp add: row_output_out1 [OF assms(1) m assms(2)] init_state_def)
  have eq: "unmatched_account_names res =
      unmatched_account_names init_state \<union>
      (\<Union>r'\<in>set (map (ext L) (rows d)). unmatched_account_names (out1 L m r'))"
    by (rule process_rows_unmatched [OF pr])
  from assms(2) have mem: "ext L r \<in> set (map (ext L) (rows d))" by simp
  from o have "nm \<in> unmatched_account_names (out1 L m (ext L r))" by simp
  with mem have "nm \<in> (\<Union>r'\<in>set (map (ext L) (rows d)). unmatched_account_names (out1 L m r'))"
    by blast
  then have "nm \<in> unmatched_account_names res" by (subst eq) (rule UnI2)
  with nm show "\<exists>nm. r ''std_account_name_for_lookup'' = Some nm \<and> nm \<in> unmatched_account_names res"
    by blast
qed

lemma row_output_invalid:
  assumes "reconcile L a d = Inr res" and "lookup_map L a = Inr m" and "r \<in> set (rows d)"
  shows "has_account L a r \<and> \<not> valid_quantity L r \<Longrightarrow> row_output L a d r = []"
    and "skipped_due_to_invalid_cases (out1 L m (ext L r)) =
           (if has_account L a r \<and> \<not> valid_quantity L r then 1 else 0)"
proof -
  from row_key [OF assms(1,3)] obtain k where k: "lookup_key L r = Some k" by blast
  note ro = row_output_out1 [OF assms]
  have "(has_account L a r \<and> \<not> valid_quantity L r \<longrightarrow> row_output L a d r = []) \<and>
        skipped_due_to_invalid_cases (out1 L m (ext L r)) =
           (if has_account L a r \<and> \<not> valid_quantity L r then 1 else 0)"
  proof (cases "m k")
    case None
    with has_account_iff [OF assms(2) k] have "\<not> has_account L a r" by simp
    with row_unmatched [OF assms k None] show ?thesis by (auto simp: init_state_def)
  next
    case (Some aid)
    with has_account_iff [OF assms(2) k] have h: "has_account L a r" by simp
    show ?thesis
    proof (cases "valid_quantity L r")
      case True
      with row_matched [OF assms k Some True] show ?thesis by (auto simp: init_state_def)
    next
      case False
      with row_invalid [OF assms k Some False] h ro show ?thesis by (simp add: init_state_def)
    qed
  qed
  then show "has_account L a r \<and> \<not> valid_quantity L r \<Longrightarrow> row_output L a d r = []"
    and "skipped_due_to_invalid_cases (out1 L m (ext L r)) =
           (if has_account L a r \<and> \<not> valid_quantity L r then 1 else 0)"
    by simp_all
qed

lemma sum_list_const_one: "\<forall>x\<in>set xs. f x = (1::nat) \<Longrightarrow> sum_list (map f xs) = length xs"
  by (induction xs) auto

subsection \<open>Well-formed tables\<close>

lemma cells_of_ok:
  "\<forall>r\<in>set rs. r c \<noteq> None \<Longrightarrow> \<exists>vs. cells_of rs c = Inr vs"
  by (induction rs) (auto simp: getitem_def)

lemma wf_dom: "wf_df df \<Longrightarrow> r \<in> set (rows df) \<Longrightarrow> dom r = set (columns df)"
  by (simp add: wf_df_def list_all_iff)

lemma wf_rowD: "wf_df df \<Longrightarrow> r \<in> set (rows df) \<Longrightarrow> c \<in> set (columns df) \<Longrightarrow> r c \<noteq> None"
  using wf_dom [of df r] by (metis domIff)

lemma wf_rowD': "wf_df df \<Longrightarrow> r \<in> set (rows df) \<Longrightarrow> c \<notin> set (columns df) \<Longrightarrow> r c = None"
  using wf_dom [of df r] by (metis domIff)

lemma wf_lookup_map:
  assumes "wf_df a" and "''id'' \<in> set (columns a)" and "''std_account_name'' \<in> set (columns a)"
  shows "\<exists>m. lookup_map L a = Inr m"
proof -
  let ?rs = "map (\<lambda>r. r(''match_col_accounts'' := map_option (normalize_name L) (r ''std_account_name''))) (rows a)"
  have "\<forall>r\<in>set ?rs. r ''match_col_accounts'' \<noteq> None"
    using wf_rowD [OF assms(1) _ assms(3)] by auto
  then obtain ks where ks: "cells_of ?rs ''match_col_accounts'' = Inr ks"
    using cells_of_ok by blast
  have "\<forall>r\<in>set ?rs. r ''id'' \<noteq> None"
    using wf_rowD [OF assms(1) _ assms(2)] by auto
  then obtain vs where vs: "cells_of ?rs ''id'' = Inr vs"
    using cells_of_ok by blast
  from ks vs assms(2,3) show ?thesis
    by (simp add: lookup_map_def add_match_col_def account_id_map_def getcol_def)
qed

lemma process_rows_InlD:
  "process_rows L m st rs = Inl e \<Longrightarrow> \<exists>r\<in>set rs. process_row L m init_state r = Inl e"
proof (induction rs arbitrary: st)
  case Nil
  then show ?case by simp
next
  case (Cons r rs)
  show ?case
  proof (cases "process_row L m init_state r")
    case (Inl e')
    then have "process_row L m st r = Inl e'" by (subst process_row_merge) simp
    with Cons.prems Inl show ?thesis by simp
  next
    case (Inr t)
    then have "process_row L m st r = Inr (merge_state st t)" by (subst process_row_merge) simp
    with Cons.prems have "process_rows L m (merge_state st t) rs = Inl e" by simp
    from Cons.IH [OF this] show ?thesis by simp
  qed
qed

lemma py_float_error: "py_float L c = Inl e \<Longrightarrow> e = ValueError \<or> e = OverflowError"
  by (cases c) (auto simp: float_int_def Let_def split: option.splits if_splits)

lemma process_row_InlD:
  assumes "process_row L m init_state (ext L r) = Inl e"
    and "r ''std_account_name_for_lookup'' \<noteq> None"
  shows "(e = OverflowError \<and> (\<exists>c. r ''cases'' = Some c \<and> py_float L c = Inl OverflowError)) \<or>
         (\<exists>c\<in>set [''cases'', ''order_date'', ''sku'']. e = KeyError c \<and> r c = None)"
proof (cases "r ''cases''")
  case None
  with assms show ?thesis
    by (auto simp: process_row_def ext_def lookup_key_def getitem_def
        split: option.splits sum.splits if_splits)
next
  case (Some c)
  show ?thesis
  proof (cases "py_float L c")
    case (Inl e')
    from py_float_error [OF Inl] Some Inl assms show ?thesis
      by (auto simp: process_row_def ext_def lookup_key_def getitem_def
          split: option.splits if_splits)
  next
    case (Inr x)
    with Some assms show ?thesis
      by (auto simp: process_row_def ext_def lookup_key_def getitem_def
          split: option.splits sum.splits if_splits)
  qed
qed

lemma process_row_total:
  assumes "r ''std_account_name_for_lookup'' \<noteq> None" and "r ''cases'' = Some c"
    and "py_float L c \<noteq> Inl OverflowError"
    and "r ''order_date'' \<noteq> None" and "r ''sku'' \<noteq> None"
  shows "\<exists>t. process_row L m init_state (ext L r) = Inr t"
proof (cases "py_float L c")
  case (Inl e)
  with py_float_error [OF Inl] assms(3) have "py_float L c = Inl ValueError" by auto
  with assms show ?thesis
    by (auto simp: process_row_def ext_def lookup_key_def getitem_def split: option.splits)
next
  case (Inr x)
  with assms show ?thesis
    by (auto simp: process_row_def ext_def lookup_key_def getitem_def split: option.splits)
qed

subsection \<open>The final table\<close>

lemma set_dates_fields:
  assumes "length ds = length ms"
  shows "map order_date (set_dates ms ds) = ds"
    and "map sku (set_dates ms ds) = map sku ms"
    and "map cases (set_dates ms ds) = map cases ms"
    and "map account_id (set_dates ms ds) = map account_id ms"
  using assms [symmetric]
  by (induction ms ds rule: list_induct2; simp add: set_dates_def)+

lemma finalize_None:
  assumes "finalize L ms = Some final"
    and "to_datetime_strftime L (map order_date ms) = None"
  shows "final = map (\<lambda>m. m\<lparr>account_id := CStr (astype_str L (account_id m)),
                             sku := CStr (astype_str L (sku m))\<rparr>) ms"
  using assms by (simp add: finalize_def Let_def comp_def split: if_splits)

lemma finalize_Some:
  assumes "finalize L ms = Some final"
    and "to_datetime_strftime L (map order_date ms) = Some ds" and "length ds = length ms"
  shows "map order_date final = ds"
    and "map sku final = map (\<lambda>m. CStr (astype_str L (sku m))) ms"
    and "map cases final = map cases ms"
    and "map account_id final = map (\<lambda>m. CStr (astype_str L (account_id m))) ms"
proof -
  let ?ms1 = "map (\<lambda>m. m\<lparr>account_id := CStr (astype_str L (account_id m))\<rparr>) ms"
  from assms(3) have len: "length ds = length ?ms1" by simp
  from assms(1,2) have final: "final = map (\<lambda>m. m\<lparr>sku := CStr (astype_str L (sku m))\<rparr>) (set_dates ?ms1 ds)"
    by (simp add: finalize_def Let_def comp_def split: if_splits)
  have "map order_date final = map order_date (set_dates ?ms1 ds)"
    by (simp add: final comp_def)
  then show "map order_date final = ds"
    by (simp only: set_dates_fields(1) [OF len])
  have "map sku final = map (\<lambda>c. CStr (astype_str L c)) (map sku (set_dates ?ms1 ds))"
    by (simp add: final comp_def)
  also have "\<dots> = map (\<lambda>c. CStr (astype_str L c)) (map sku ?ms1)"
    by (simp only: set_dates_fields(2) [OF len])
  also have "\<dots> = map (\<lambda>m. CStr (astype_str L (sku m))) ms"
    by (simp add: comp_def)
  finally show "map sku final = map (\<lambda>m. CStr (astype_str L (sku m))) ms" .
  have "map cases final = map cases (set_dates ?ms1 ds)"
    by (simp add: final comp_def)
  also have "\<dots> = map cases ?ms1"
    by (simp only: set_dates_fields(3) [OF len])
  also have "\<dots> = map cases ms"
    by (simp add: comp_def)
  finally show "map cases final = map cases ms" .
  have "map account_id final = map account_id (set_dates ?ms1 ds)"
    by (simp add: final comp_def)
  also have "\<dots> = map account_id ?ms1"
    by (simp only: set_dates_fields(4) [OF len])
  also have "\<dots> = map (\<lambda>m. CStr (astype_str L (account_id m))) ms"
    by (simp add: comp_def)
  finally show "map account_id final = map (\<lambda>m. CStr (astype_str L (account_id m))) ms" .
qed

subsection \<open>The tables after a run\<close>

lemma add_match_col_twice:
  assumes "dst \<noteq> src" and "add_match_col L dst src df = Inr df'"
  shows "add_match_col L dst src df' = Inr df'"
proof -
  from assms(2) have src: "src \<in> set (columns df)"
    and df': "df' = \<lparr>columns = (if dst \<in> set (columns df) then columns df else columns df @ [dst]),
                rows = map (\<lambda>r. r(dst := map_option (normalize_name L) (r src))) (rows df)\<rparr>"
    by (auto simp: add_match_col_def split: if_splits)
  from assms(1) have "(\<lambda>r. r(dst := map_option (normalize_name L) (r src))) \<circ>
      (\<lambda>r. r(dst := map_option (normalize_name L) (r src))) =
      (\<lambda>r. r(dst := map_option (normalize_name L) (r src)))"
    by (auto simp: fun_eq_iff)
  with src show ?thesis by (simp add: add_match_col_def df')
qed

lemma add_match_col_columns:
  "add_match_col L dst src df = Inr df' \<Longrightarrow> set (columns df) \<subseteq> set (columns df')"
  by (auto simp: add_match_col_def split: if_splits)

lemma reconcile_inplace_result: "snd (reconcile_inplace L (a, d)) = reconcile L a d"
  by (simp add: reconcile_inplace_def reconcile_def match_depletions_def
      split: option.splits sum.splits)

lemma reconcile_inplace_twice:
  "reconcile_inplace L (fst (reconcile_inplace L (a, d))) = reconcile_inplace L (a, d)"
proof (cases "check_accounts a")
  case (Some e)
  then show ?thesis by (simp add: reconcile_inplace_def)
next
  case None
  note ca = this
  show ?thesis
  proof (cases "check_depletions d")
    case (Some e)
    with ca show ?thesis by (simp add: reconcile_inplace_def)
  next
    case None
    from ca obtain a' where a': "add_match_col L ''match_col_accounts'' ''std_account_name'' a = Inr a'"
      by (auto simp: check_accounts_def add_match_col_def split: if_splits)
    from None obtain d' where d': "add_match_col L ''match_col_depletions''
        ''std_account_name_for_lookup'' d = Inr d'"
      by (auto simp: check_depletions_def add_match_col_def split: if_splits)
    from ca add_match_col_columns [OF a'] have ca': "check_accounts a' = None"
      by (auto simp: check_accounts_def split: if_splits)
    from None add_match_col_columns [OF d'] have cd': "check_depletions d' = None"
      by (auto simp: check_depletions_def split: if_splits)
    have a'': "add_match_col L ''match_col_accounts'' ''std_account_name'' a' = Inr a'"
      by (rule add_match_col_twice [OF _ a']) simp
    have d'': "add_match_col L ''match_col_depletions'' ''std_account_name_for_lookup'' d' = Inr d'"
      by (rule add_match_col_twice [OF _ d']) simp
    show ?thesis
      by (simp add: reconcile_inplace_def ca None a' d' ca' cd' a'' d'')
  qed
qed

text \<open>The script over the files: the input files are left as they are, and a second
  run leaves the files of the first.\<close>

lemma files_after_second_run:
  "merge_true_supabase_ids_with_depletions L fs ''accounts_with_supabase_ids.csv'' =
     fs ''accounts_with_supabase_ids.csv'' \<and>
   merge_true_supabase_ids_with_depletions L fs ''depletions_to_import.csv'' =
     fs ''depletions_to_import.csv'' \<and>
   merge_true_supabase_ids_with_depletions L (merge_true_supabase_ids_with_depletions L fs) =
     merge_true_supabase_ids_with_depletions L fs"
proof -
  let ?run = "merge_true_supabase_ids_with_depletions L"
  have a: "?run fs ''accounts_with_supabase_ids.csv'' = fs ''accounts_with_supabase_ids.csv''" for fs
    by (simp add: merge_true_supabase_ids_with_depletions_def split: option.splits sum.splits)
  have d: "?run fs ''depletions_to_import.csv'' = fs ''depletions_to_import.csv''" for fs
    by (simp add: merge_true_supabase_ids_with_depletions_def split: option.splits sum.splits)
  have "?run (?run fs) = ?run fs"
  proof -
    have "?run (?run fs) =
      (case fs ''accounts_with_supabase_ids.csv'' of
        None \<Rightarrow> ?run fs
      | Some accounts_df \<Rightarrow>
          (case check_accounts accounts_df of
             Some e \<Rightarrow> ?run fs
           | None \<Rightarrow>
               (case fs ''depletions_to_import.csv'' of
                  None \<Rightarrow> ?run fs
                | Some depletions_df \<Rightarrow>
                    (case check_depletions depletions_df of
                       Some e \<Rightarrow> ?run fs
                     | None \<Rightarrow>
                         (case match_depletions L accounts_df depletions_df of
                            Inl e \<Rightarrow> ?run fs
                          | Inr st \<Rightarrow>
                              (case finalize L (matched_depletions_data st) of
                                 None \<Rightarrow> ?run fs
                               | Some final \<Rightarrow>
                                   (?run fs)(''depletions_final_for_import.csv'' \<mapsto>
                                        DataFrame final)))))))"
      by (subst merge_true_supabase_ids_with_depletions_def) (simp only: a d)
    also have "\<dots> = ?run fs"
      by (simp add: merge_true_supabase_ids_with_depletions_def split: option.splits sum.splits)
    finally show ?thesis .
  qed
  with a d show ?thesis by blast
qed

subsection \<open>The unpivot of the month columns\<close>

lemma month_df_dates:
  "month_df df c od = Inr rs \<Longrightarrow> r \<in> set rs \<Longrightarrow> r ''order_date'' = Some (CStr od)"
  by (auto simp: month_df_def split: sum.splits)

lemma unpivot_concat:
  "unpivot df start i cols = Inr frames \<Longrightarrow>
   concat frames =
     concat (map (dated_rows df start) (filter (\<lambda>ic. snd ic \<in> set (columns df)) (enumerate i cols)))"
proof (induction cols arbitrary: i frames)
  case Nil
  then show ?case by simp
next
  case (Cons c cols)
  show ?case
  proof (cases "c \<in> set (columns df)")
    case False
    with Cons.prems have "unpivot df start (Suc i) cols = Inr frames" by simp
    from Cons.IH [OF this] False show ?thesis by simp
  next
    case True
    with Cons.prems obtain dt m rest where dt: "add_days start (30 * i) = Some dt"
      and m: "month_df df c (strftime dt) = Inr m"
      and rest: "unpivot df start (Suc i) cols = Inr rest" and frames: "frames = m # rest"
      by (auto split: option.splits sum.splits)
    from dt m have "dated_rows df start (i, c) = m" by (simp add: dated_rows_def)
    with Cons.IH [OF rest] True frames show ?thesis by simp
  qed
qed

lemma dated_rows_date:
  assumes "r \<in> set (dated_rows df start ic)"
  shows "\<exists>dt. add_days start (30 * fst ic) = Some dt \<and> r ''order_date'' = Some (CStr (strftime dt))"
proof (cases "add_days start (30 * fst ic)")
  case None
  with assms show ?thesis by (simp add: dated_rows_def)
next
  case (Some dt)
  show ?thesis
  proof (cases "month_df df (snd ic) (strftime dt)")
    case (Inl e)
    with Some assms show ?thesis by (simp add: dated_rows_def)
  next
    case (Inr rs)
    with Some assms have "r \<in> set rs" by (simp add: dated_rows_def)
    from month_df_dates [OF Inr this] Some show ?thesis by simp
  qed
qed

subsection \<open>The example, evaluated\<close>

lemmas string_defs = normalize_name_def lower_def lower_char_def strip_def isspace_def

lemmas row_defs = acct_def depl_def joes_a1_def joes_a2_def cafe_b1_def joes_dep_def
  unknown_dep_def zero_dep_def missing_dep_def text_dep_def cafe_dep_def

lemmas eval_defs = reconcile_def check_accounts_def check_depletions_def match_depletions_def
  add_match_col_def account_id_map_def getcol_def getitem_def dict_def process_row_def
  init_state_def string_defs demo_lib_def row_defs float_int_small

lemma ex_reconcile: "reconcile demo_lib ex_accounts ex_depletions = Inr ex_result"
  by (simp add: ex_accounts_def ex_depletions_def ex_result_def joes_out_def cafe_out_def eval_defs)

lemma ex_lookup_map: "lookup_map demo_lib ex_accounts = Inr ex_map"
  by (simp add: lookup_map_def ex_accounts_def ex_map_def add_match_col_def account_id_map_def
      getcol_def getitem_def string_defs row_defs)

lemma ex_keys:
  "account_key demo_lib joes_a1 = Some (CStr ''joes bar'')"
  "account_key demo_lib joes_a2 = Some (CStr ''joes bar'')"
  "account_key demo_lib cafe_b1 = Some (CStr ''cafe'')"
  "lookup_key demo_lib joes_dep = Some (CStr ''joes bar'')"
  "lookup_key demo_lib unknown_dep = Some (CStr ''unknown store'')"
  "lookup_key demo_lib zero_dep = Some (CStr ''cafe'')"
  "lookup_key demo_lib missing_dep = Some (CStr ''cafe'')"
  "lookup_key demo_lib text_dep = Some (CStr ''cafe'')"
  "lookup_key demo_lib cafe_dep = Some (CStr ''cafe'')"
  by (simp_all add: account_key_def lookup_key_def string_defs row_defs)

lemma ex_has_account:
  "has_account demo_lib ex_accounts joes_dep"
  "\<not> has_account demo_lib ex_accounts unknown_dep"
  "has_account demo_lib ex_accounts zero_dep"
  "has_account demo_lib ex_accounts missing_dep"
  "has_account demo_lib ex_accounts text_dep"
  "has_account demo_lib ex_accounts cafe_dep"
  by (simp_all add: has_account_def ex_accounts_def ex_keys)

lemma ex_valid:
  "valid_quantity demo_lib joes_dep"
  "\<not> valid_quantity demo_lib zero_dep"
  "\<not> valid_quantity demo_lib missing_dep"
  "\<not> valid_quantity demo_lib text_dep"
  "valid_quantity demo_lib cafe_dep"
  by (simp_all add: valid_quantity_def demo_lib_def row_defs float_int_small)

lemma ex_row_output:
  "row_output demo_lib ex_accounts ex_depletions joes_dep = [joes_out]"
  "row_output demo_lib ex_accounts ex_depletions unknown_dep = []"
  "row_output demo_lib ex_accounts ex_depletions zero_dep = []"
  "row_output demo_lib ex_accounts ex_depletions cafe_dep = [cafe_out]"
  by (simp_all add: row_output_def ex_accounts_def ex_depletions_def joes_out_def cafe_out_def eval_defs)

lemma ex_wf: "wf_df ex_accounts" "wf_df ex_depletions" "wf_df ex_no_cases" "wf_df ex_no_id"
  by (auto simp: wf_df_def ex_accounts_def ex_depletions_def ex_no_cases_def ex_no_id_def
      joes_a1_def joes_a2_def cafe_b1_def acct_def depl_def depl_nc_def unknown_nc_def joes_nc_def
      joes_dep_def unknown_dep_def zero_dep_def missing_dep_def text_dep_def cafe_dep_def)

lemma ex_no_cases_eval:
  "reconcile demo_lib ex_accounts ex_no_cases = Inl (KeyError ''cases'')"
  "reconcile demo_lib ex_accounts (ex_no_cases\<lparr>rows := [unknown_nc]\<rparr>) =
     Inr \<lparr>matched_depletions_data = [], unmatched_account_names = {CStr ''Unknown Store''},
          skipped_due_to_invalid_cases = 0\<rparr>"
  "process_row demo_lib ex_map init_state (ext demo_lib unknown_nc) =
     Inr (init_state\<lparr>unmatched_account_names := {CStr ''Unknown Store''}\<rparr>)"
  "process_row demo_lib ex_map (init_state\<lparr>unmatched_account_names := {CStr ''Unknown Store''}\<rparr>)
     (ext demo_lib joes_nc) = Inl (KeyError ''cases'')"
  by (simp_all add: ex_accounts_def ex_no_cases_def ex_map_def unknown_nc_def joes_nc_def depl_nc_def
      ext_def lookup_key_def reconcile_def check_accounts_def check_depletions_def match_depletions_def
      add_match_col_def account_id_map_def getcol_def getitem_def dict_def process_row_def
      init_state_def string_defs demo_lib_def acct_def joes_a1_def joes_a2_def cafe_b1_def)

lemma ex_strptime: "strptime ''2024-04-01'' = Some \<lparr>year = 2024, month = 4, day = 1\<rparr>"
  by (simp add: strptime_def month_field_def day_field_def isdigit_def nat_of_digits_def digit_val_def
      days_in_month_def is_leap_def)

lemma ex_add_days:
  "add_days \<lparr>year = 2024, month = 4, day = 1\<rparr> (30 * 0) = Some \<lparr>year = 2024, month = 4, day = 1\<rparr>"
  "add_days \<lparr>year = 2024, month = 4, day = 1\<rparr> (30 * 1) = Some \<lparr>year = 2024, month = 5, day = 1\<rparr>"
  "add_days \<lparr>year = 2024, month = 4, day = 1\<rparr> (30 * 2) = Some \<lparr>year = 2024, month = 5, day = 31\<rparr>"
  by (simp_all add: add_days.simps next_day_def days_in_month_def is_leap_def)

lemma ex_strftime:
  "strftime \<lparr>year = 2024, month = 4, day = 1\<rparr> = ''2024-04-01''"
  "strftime \<lparr>year = 2024, month = 5, day = 1\<rparr> = ''2024-05-01''"
  "strftime \<lparr>year = 2024, month = 5, day = 31\<rparr> = ''2024-05-31''"
  by (simp_all add: strftime_def pad_def digits.simps digit_char_def)

lemma ex_vip_run:
  "\<exists>acc. process_vip_export ex_vip ''2024-04-01'' [''9L'', ''9L.1'', ''9L.2''] = Inr (acc, ex_vip_depletions)"
  by (simp add: process_vip_export_def accounts_to_import_def account_columns_def ex_vip_def
      ex_strptime ex_add_days [simplified] ex_strftime ex_strftime [simplified] month_df_def getcol_def getitem_def
      ex_vip_depletions_def vip_row_def drop_duplicates_def)


lemma ex_dated_rows:
  "dated_rows ex_vip \<lparr>year = 2024, month = 4, day = 1\<rparr> (2, ''9L.2'') =
     [vip_row (CInt 2) ''2024-05-31'']"
  by (simp add: dated_rows_def ex_add_days [simplified] ex_strftime ex_strftime [simplified]
      month_df_def getcol_def getitem_def ex_vip_def vip_row_def)

lemma ex_huge_wf: "wf_df ex_huge"
  by (auto simp: wf_df_def ex_huge_def huge_dep_def depl_def)

lemma ex_huge_eval:
  "py_float demo_lib (CInt (2 ^ 1024)) = Inl OverflowError"
  "reconcile demo_lib ex_accounts ex_huge = Inl OverflowError"
proof -
  have "(2::int) ^ 1024 \<le> \<bar>2 ^ 1024\<bar>" by (rule abs_ge_self)
  then have f: "float_int (2 ^ 1024) = Inl OverflowError" by (rule float_int_huge)
  then show "py_float demo_lib (CInt (2 ^ 1024)) = Inl OverflowError" by (simp only: py_float.simps)
  note [simp del] = power_numeral
  from f show "reconcile demo_lib ex_accounts ex_huge = Inl OverflowError"
    by (simp add: ex_accounts_def ex_huge_def huge_dep_def reconcile_def check_accounts_def
        check_depletions_def match_depletions_def add_match_col_def account_id_map_def getcol_def
        getitem_def dict_def process_row_def init_state_def string_defs acct_def depl_def
        joes_a1_def joes_a2_def cafe_b1_def)
qed

lemma ex_us_date: "to_datetime_strftime us_lib [CStr ''04/01/2024''] = Some [CStr ''2024-04-01'']"
  by (simp add: us_lib_def demo_lib_def us_date_def ex_strptime ex_strftime
      ex_strftime [simplified])

lemma ex_us_reconcile: "reconcile us_lib ex_cafe_accounts ex_us_depletions = Inr us_result"
  by (simp add: ex_cafe_accounts_def ex_us_depletions_def us_result_def us_out_def us_dep_def
      us_lib_def reconcile_def check_accounts_def check_depletions_def match_depletions_def
      add_match_col_def account_id_map_def getcol_def getitem_def dict_def process_row_def
      init_state_def string_defs demo_lib_def acct_def cafe_b1_def)

lemma ex_us_row_output:
  "row_output us_lib ex_cafe_accounts ex_us_depletions us_dep = [us_out]"
  using ex_us_reconcile by (simp add: row_output_def ex_us_depletions_def us_result_def)

lemma ex_us_finalize: "finalize us_lib [us_out] = Some [us_final]"
proof -
  have "to_datetime_strftime us_lib (map order_date
      (map (\<lambda>m. m\<lparr>account_id := CStr (astype_str us_lib (account_id m))\<rparr>) [us_out])) =
      Some [CStr ''2024-04-01'']"
    using ex_us_date by (simp add: us_out_def)
  then show ?thesis
    by (simp add: finalize_def Let_def set_dates_def us_out_def us_final_def str_int_def
        digits.simps digit_char_def)
qed

section \<open>The claims on the reconciliation\<close>

text \<open>
  Claim C1, as amended. Whenever the reconciliation returns: for every depletion row and
  every account row with the same normalised name that is the last such account in input
  order, each record emitted for that depletion row carries the identifier of that account;
  and every record of the matched output was emitted for a depletion row whose normalised
  name is the normalised name of an account with that identifier. (As stated, for every
  account with the same normalised name, the claim fails when two accounts share a
  normalised name: see the theorem after this one.)
\<close>

theorem matched_id_is_last_account:
  assumes "reconcile L a d = Inr res"
  shows "(\<forall>r\<in>set (rows d). \<forall>es1 e es2.
            rows a = es1 @ e # es2 \<and> account_key L e = lookup_key L r \<and>
            (\<forall>e'\<in>set es2. account_key L e' \<noteq> lookup_key L r) \<longrightarrow>
            (\<forall>x\<in>set (row_output L a d r). e ''id'' = Some (account_id x))) \<and>
         (\<forall>x\<in>set (matched_depletions_data res).
            \<exists>r\<in>set (rows d). \<exists>e\<in>set (rows a).
              x \<in> set (row_output L a d r) \<and> account_key L e = lookup_key L r \<and>
              e ''id'' = Some (account_id x))"
proof -
  from reconcile_InrD [OF assms] obtain m where m: "lookup_map L a = Inr m" by blast
  have first: "e ''id'' = Some (account_id x)"
    if r: "r \<in> set (rows d)" and rows: "rows a = es1 @ e # es2"
      and key: "account_key L e = lookup_key L r"
      and last: "\<forall>e'\<in>set es2. account_key L e' \<noteq> lookup_key L r"
      and x: "x \<in> set (row_output L a d r)"
    for r es1 e es2 x
  proof -
    from row_output_memD [OF assms m r x] obtain k where k: "lookup_key L r = Some k"
      and mk: "m k = Some (account_id x)" by blast
    from key last k have "m k = e ''id''" by (intro lookup_map_last [OF m rows]) auto
    with mk show ?thesis by simp
  qed
  have second: "\<exists>r\<in>set (rows d). \<exists>e\<in>set (rows a).
              x \<in> set (row_output L a d r) \<and> account_key L e = lookup_key L r \<and>
              e ''id'' = Some (account_id x)"
    if "x \<in> set (matched_depletions_data res)" for x
  proof -
    from that obtain r where r: "r \<in> set (rows d)" and x: "x \<in> set (row_output L a d r)"
      by (auto simp: matched_concat [OF assms])
    from row_output_memD [OF assms m r x] obtain k where k: "lookup_key L r = Some k"
      and mk: "m k = Some (account_id x)" by blast
    from lookup_map_SomeD [OF m mk] obtain es1 e es2 where "rows a = es1 @ e # es2"
      "account_key L e = Some k" "e ''id'' = Some (account_id x)"
      by blast
    then have "e \<in> set (rows a)" "account_key L e = lookup_key L r" "e ''id'' = Some (account_id x)"
      using k by simp_all
    with r x show ?thesis by blast
  qed
  from first second show ?thesis by blast
qed

text \<open>The account \<open>A1\<close> (\<open>Joes Bar\<close>) and the first depletion row have the same
  normalised name, and the record emitted for that row carries \<open>A2\<close>, the identifier of
  the later account \<open>joes bar\<close>.\<close>

theorem matched_id_not_every_account:
  "joes_a1 \<in> set (rows ex_accounts) \<and> joes_dep \<in> set (rows ex_depletions) \<and>
   account_key demo_lib joes_a1 = lookup_key demo_lib joes_dep \<and>
   row_output demo_lib ex_accounts ex_depletions joes_dep = [joes_out] \<and>
   joes_a1 ''id'' = Some (CStr ''A1'') \<and> account_id joes_out = CStr ''A2''"
proof -
  have "joes_a1 \<in> set (rows ex_accounts)" by (simp add: ex_accounts_def)
  moreover have "joes_dep \<in> set (rows ex_depletions)" by (simp add: ex_depletions_def)
  moreover have "account_key demo_lib joes_a1 = lookup_key demo_lib joes_dep"
    by (simp add: ex_keys)
  moreover note ex_row_output(1)
  moreover have "joes_a1 ''id'' = Some (CStr ''A1'')" by (simp add: joes_a1_def acct_def)
  moreover have "account_id joes_out = CStr ''A2''" by (simp add: joes_out_def)
  ultimately show ?thesis by blast
qed

theorem matched_id_is_last_account_witness:
  "reconcile demo_lib ex_accounts ex_depletions = Inr ex_result \<and>
   rows ex_accounts = [joes_a1] @ joes_a2 # [cafe_b1] \<and>
   account_key demo_lib joes_a2 = lookup_key demo_lib joes_dep \<and>
   account_key demo_lib cafe_b1 \<noteq> lookup_key demo_lib joes_dep \<and>
   row_output demo_lib ex_accounts ex_depletions joes_dep = [joes_out] \<and>
   joes_a2 ''id'' = Some (account_id joes_out) \<and>
   (\<exists>r\<in>set (rows ex_depletions). \<exists>e\<in>set (rows ex_accounts).
      cafe_out \<in> set (row_output demo_lib ex_accounts ex_depletions r) \<and>
      account_key demo_lib e = lookup_key demo_lib r \<and> e ''id'' = Some (account_id cafe_out))"
proof -
  note main = matched_id_is_last_account [OF ex_reconcile]
  have rows: "rows ex_accounts = [joes_a1] @ joes_a2 # [cafe_b1]" by (simp add: ex_accounts_def)
  have k: "account_key demo_lib joes_a2 = lookup_key demo_lib joes_dep" by (simp add: ex_keys)
  have nk: "account_key demo_lib cafe_b1 \<noteq> lookup_key demo_lib joes_dep" by (simp add: ex_keys)
  have r: "joes_dep \<in> set (rows ex_depletions)" by (simp add: ex_depletions_def)
  have x: "joes_out \<in> set (row_output demo_lib ex_accounts ex_depletions joes_dep)"
    by (simp add: ex_row_output)
  from main r rows k nk x have id: "joes_a2 ''id'' = Some (account_id joes_out)"
    by (metis empty_iff empty_set set_ConsD)
  have "cafe_out \<in> set (matched_depletions_data ex_result)" by (simp add: ex_result_def)
  with main have "\<exists>r\<in>set (rows ex_depletions). \<exists>e\<in>set (rows ex_accounts).
      cafe_out \<in> set (row_output demo_lib ex_accounts ex_depletions r) \<and>
      account_key demo_lib e = lookup_key demo_lib r \<and> e ''id'' = Some (account_id cafe_out)"
    by blast
  with ex_reconcile rows k nk ex_row_output(1) id show ?thesis by blast
qed

text \<open>
  Claim C2. Whenever the reconciliation returns: removing the depletion rows whose
  normalised name is the normalised name of no account leaves the matched output as it
  is, such a row emits no record, and its name cell, as it stands in the input, is in the
  set of unmatched names.
\<close>

theorem unmatched_rows_are_dropped:
  assumes "reconcile L a d = Inr res"
  shows "(\<exists>res'. reconcile L a (d\<lparr>rows := filter (has_account L a) (rows d)\<rparr>) = Inr res' \<and>
            matched_depletions_data res' = matched_depletions_data res) \<and>
         (\<forall>r\<in>set (rows d). \<not> has_account L a r \<longrightarrow>
            row_output L a d r = [] \<and>
            (\<exists>nm. r ''std_account_name_for_lookup'' = Some nm \<and>
                  nm \<in> unmatched_account_names res))"
proof -
  have drop: "\<forall>r\<in>set (rows d). \<not> has_account L a r \<longrightarrow> row_output L a d r = []"
    using row_output_unmatched(1) [OF assms] by blast
  from reconcile_filter [OF assms drop] row_output_unmatched(1,2) [OF assms]
  show ?thesis by blast
qed

theorem unmatched_rows_are_dropped_witness:
  "reconcile demo_lib ex_accounts ex_depletions = Inr ex_result \<and>
   unknown_dep \<in> set (rows ex_depletions) \<and>
   \<not> has_account demo_lib ex_accounts unknown_dep \<and>
   row_output demo_lib ex_accounts ex_depletions unknown_dep = [] \<and>
   unknown_dep ''std_account_name_for_lookup'' = Some (CStr ''Unknown Store'') \<and>
   CStr ''Unknown Store'' \<in> unmatched_account_names ex_result \<and>
   (\<exists>res'. reconcile demo_lib ex_accounts
              (ex_depletions\<lparr>rows := [joes_dep, zero_dep, missing_dep, text_dep, cafe_dep]\<rparr>)
            = Inr res' \<and>
           matched_depletions_data res' = [joes_out, cafe_out])"
proof -
  note main = unmatched_rows_are_dropped [OF ex_reconcile]
  have r: "unknown_dep \<in> set (rows ex_depletions)" by (simp add: ex_depletions_def)
  have nm: "unknown_dep ''std_account_name_for_lookup'' = Some (CStr ''Unknown Store'')"
    by (simp add: unknown_dep_def depl_def)
  from main r ex_has_account(2) nm
  have out: "row_output demo_lib ex_accounts ex_depletions unknown_dep = []"
    and un: "CStr ''Unknown Store'' \<in> unmatched_account_names ex_result"
    by auto
  have f: "filter (has_account demo_lib ex_accounts) (rows ex_depletions) =
      [joes_dep, zero_dep, missing_dep, text_dep, cafe_dep]"
    by (simp add: ex_depletions_def ex_has_account)
  have m: "matched_depletions_data ex_result = [joes_out, cafe_out]" by (simp add: ex_result_def)
  from main have "\<exists>res'. reconcile demo_lib ex_accounts
              (ex_depletions\<lparr>rows := [joes_dep, zero_dep, missing_dep, text_dep, cafe_dep]\<rparr>)
            = Inr res' \<and>
           matched_depletions_data res' = [joes_out, cafe_out]"
    by (simp only: f m)
  with ex_reconcile r ex_has_account(2) out nm un show ?thesis by blast
qed

text \<open>
  Claim C3. Whenever the reconciliation returns: removing the rows that have an account
  and whose quantity does not convert to a strictly positive number (a missing cell, a
  text that is no number, zero, a negative number) leaves the matched output as it is;
  such a row emits no record; the count of skipped rows is the number of such rows, one
  for each; and the quantity of every matched record is a float strictly above zero.
\<close>

theorem invalid_quantity_rows_are_skipped:
  assumes "reconcile L a d = Inr res"
  shows "(\<exists>res'. reconcile L a
              (d\<lparr>rows := filter (\<lambda>r. \<not> (has_account L a r \<and> \<not> valid_quantity L r)) (rows d)\<rparr>)
              = Inr res' \<and>
            matched_depletions_data res' = matched_depletions_data res) \<and>
         (\<forall>r\<in>set (rows d). has_account L a r \<and> \<not> valid_quantity L r \<longrightarrow>
            row_output L a d r = []) \<and>
         skipped_due_to_invalid_cases res =
           length (filter (\<lambda>r. has_account L a r \<and> \<not> valid_quantity L r) (rows d)) \<and>
         (\<forall>x\<in>set (matched_depletions_data res). \<exists>v. cases x = CFloat v \<and> positive v)"
proof -
  from reconcile_InrD [OF assms] obtain m where m: "lookup_map L a = Inr m"
    and pr: "process_rows L m init_state (map (ext L) (rows d)) = Inr res"
    by blast
  have drop: "\<forall>r\<in>set (rows d). has_account L a r \<and> \<not> valid_quantity L r \<longrightarrow>
      row_output L a d r = []"
    using row_output_invalid(1) [OF assms m] by blast
  then have drop': "\<forall>r\<in>set (rows d).
      \<not> \<not> (has_account L a r \<and> \<not> valid_quantity L r) \<longrightarrow> row_output L a d r = []"
    by simp
  have "map (\<lambda>r. skipped_due_to_invalid_cases (out1 L m (ext L r))) (rows d) =
        map (\<lambda>r. if has_account L a r \<and> \<not> valid_quantity L r then 1 else 0) (rows d)"
    by (intro map_cong refl row_output_invalid(2) [OF assms m])
  with process_rows_skipped [OF pr]
  have count: "skipped_due_to_invalid_cases res =
      length (filter (\<lambda>r. has_account L a r \<and> \<not> valid_quantity L r) (rows d))"
    by (simp only: map_map comp_def sum_list_indicator) (simp add: init_state_def)
  have pos: "\<exists>v. cases x = CFloat v \<and> positive v"
    if "x \<in> set (matched_depletions_data res)" for x
  proof -
    from that obtain r where r: "r \<in> set (rows d)" and x: "x \<in> set (row_output L a d r)"
      by (auto simp: matched_concat [OF assms])
    from row_output_memD [OF assms m r x] show ?thesis by blast
  qed
  from reconcile_filter [OF assms drop'] drop count pos show ?thesis by blast
qed

theorem invalid_quantity_rows_are_skipped_witness:
  "reconcile demo_lib ex_accounts ex_depletions = Inr ex_result \<and>
   zero_dep \<in> set (rows ex_depletions) \<and>
   has_account demo_lib ex_accounts zero_dep \<and> \<not> valid_quantity demo_lib zero_dep \<and>
   row_output demo_lib ex_accounts ex_depletions zero_dep = [] \<and>
   filter (\<lambda>r. has_account demo_lib ex_accounts r \<and> \<not> valid_quantity demo_lib r)
     (rows ex_depletions) = [zero_dep, missing_dep, text_dep] \<and>
   skipped_due_to_invalid_cases ex_result = 3 \<and>
   (\<exists>v. cases joes_out = CFloat v \<and> positive v)"
proof -
  note main = invalid_quantity_rows_are_skipped [OF ex_reconcile]
  have r: "zero_dep \<in> set (rows ex_depletions)" by (simp add: ex_depletions_def)
  from main r ex_has_account(3) ex_valid(2)
  have out: "row_output demo_lib ex_accounts ex_depletions zero_dep = []" by blast
  have f: "filter (\<lambda>r. has_account demo_lib ex_accounts r \<and> \<not> valid_quantity demo_lib r)
     (rows ex_depletions) = [zero_dep, missing_dep, text_dep]"
    by (simp add: ex_depletions_def ex_has_account ex_valid)
  from main have "skipped_due_to_invalid_cases ex_result =
      length (filter (\<lambda>r. has_account demo_lib ex_accounts r \<and> \<not> valid_quantity demo_lib r)
        (rows ex_depletions))" by blast
  with f have n: "skipped_due_to_invalid_cases ex_result = 3" by simp
  have "joes_out \<in> set (matched_depletions_data ex_result)" by (simp add: ex_result_def)
  with main have "\<exists>v. cases joes_out = CFloat v \<and> positive v" by blast
  with ex_reconcile r ex_has_account(3) ex_valid(2) out f n show ?thesis by blast
qed

text \<open>
  Claim C4. When the accounts table is \<open>es1 @ e # es2\<close>, the account \<open>e\<close> normalises to
  the key \<open>k\<close> and no account after it does, the dictionary holds the identifier of \<open>e\<close>
  at \<open>k\<close>, whatever accounts of \<open>es1\<close> normalise to \<open>k\<close> as well; and every record emitted
  for a depletion row of key \<open>k\<close> carries that identifier.
\<close>

theorem last_duplicate_wins:
  assumes "lookup_map L a = Inr m" and "rows a = es1 @ e # es2"
    and "account_key L e = Some k"
    and "\<forall>e'\<in>set es2. account_key L e' \<noteq> Some k"
  shows "m k = e ''id'' \<and>
         (\<forall>d res. reconcile L a d = Inr res \<longrightarrow>
            (\<forall>r\<in>set (rows d). lookup_key L r = Some k \<longrightarrow>
               (\<forall>x\<in>set (row_output L a d r). e ''id'' = Some (account_id x))))"
proof -
  have mk: "m k = e ''id''" by (rule lookup_map_last [OF assms])
  have "e ''id'' = Some (account_id x)"
    if rec: "reconcile L a d = Inr res" and r: "r \<in> set (rows d)"
      and key: "lookup_key L r = Some k" and x: "x \<in> set (row_output L a d r)"
    for d res r x
  proof -
    from row_output_memD [OF rec assms(1) r x] obtain k' where
      "lookup_key L r = Some k'" "m k' = Some (account_id x)" by blast
    with key have "m k = Some (account_id x)" by simp
    with mk show ?thesis by simp
  qed
  with mk show ?thesis by blast
qed

theorem last_duplicate_wins_witness:
  "lookup_map demo_lib ex_accounts = Inr ex_map \<and>
   rows ex_accounts = [joes_a1] @ joes_a2 # [cafe_b1] \<and>
   account_key demo_lib joes_a1 = Some (CStr ''joes bar'') \<and>
   account_key demo_lib joes_a2 = Some (CStr ''joes bar'') \<and>
   account_key demo_lib cafe_b1 \<noteq> Some (CStr ''joes bar'') \<and>
   joes_a1 ''id'' = Some (CStr ''A1'') \<and>
   ex_map (CStr ''joes bar'') = Some (CStr ''A2'') \<and>
   reconcile demo_lib ex_accounts ex_depletions = Inr ex_result \<and>
   lookup_key demo_lib joes_dep = Some (CStr ''joes bar'') \<and>
   row_output demo_lib ex_accounts ex_depletions joes_dep = [joes_out] \<and>
   account_id joes_out = CStr ''A2''"
proof -
  have rows: "rows ex_accounts = [joes_a1] @ joes_a2 # [cafe_b1]" by (simp add: ex_accounts_def)
  have last: "\<forall>e'\<in>set [cafe_b1]. account_key demo_lib e' \<noteq> Some (CStr ''joes bar'')"
    by (simp add: ex_keys)
  note main = last_duplicate_wins [OF ex_lookup_map rows ex_keys(2) last]
  have id2: "joes_a2 ''id'' = Some (CStr ''A2'')" by (simp add: joes_a2_def acct_def)
  from main id2 have m: "ex_map (CStr ''joes bar'') = Some (CStr ''A2'')" by simp
  have r: "joes_dep \<in> set (rows ex_depletions)" by (simp add: ex_depletions_def)
  have x: "joes_out \<in> set (row_output demo_lib ex_accounts ex_depletions joes_dep)"
    by (simp add: ex_row_output)
  from main ex_reconcile r ex_keys(4) x have "joes_a2 ''id'' = Some (account_id joes_out)"
    by blast
  with id2 have out: "account_id joes_out = CStr ''A2''" by simp
  have id1: "joes_a1 ''id'' = Some (CStr ''A1'')" by (simp add: joes_a1_def acct_def)
  have nk: "account_key demo_lib cafe_b1 \<noteq> Some (CStr ''joes bar'')" by (simp add: ex_keys)
  from ex_lookup_map rows ex_keys(1,2) nk id1 m ex_reconcile ex_keys(4) ex_row_output(1) out
  show ?thesis by blast
qed

text \<open>
  Claim C5, as amended. For well-formed tables and any library: when the accounts table
  has the columns \<open>id\<close> and \<open>std_account_name\<close>, the depletions table has the columns
  \<open>std_account_name_for_lookup\<close>, \<open>cases\<close>, \<open>order_date\<close> and \<open>sku\<close>, and no quantity is an
  integer beyond the floats, the reconciliation returns its three outputs whatever the
  cells hold; when it fails, the failure is the OverflowError of \<open>float\<close> on the quantity
  of some row, or it names one of these six columns, absent from its table; and when one
  of the three columns \<open>id\<close>, \<open>std_account_name\<close>, \<open>std_account_name_for_lookup\<close> is absent,
  the failure is the one reported by the column checks, the same whatever rows the tables
  hold, so that no row is looked at. (As stated, for every required column, the claim
  fails: the columns \<open>cases\<close>, \<open>order_date\<close> and \<open>sku\<close> are not checked before the loop;
  see the theorem after this one.)
\<close>

theorem reconcile_fails_only_on_absent_column:
  assumes "wf_df a" and "wf_df d"
  shows "(set [''id'', ''std_account_name''] \<subseteq> set (columns a) \<and>
          set [''std_account_name_for_lookup'', ''cases'', ''order_date'', ''sku'']
            \<subseteq> set (columns d) \<and>
          (\<forall>r\<in>set (rows d). \<forall>c. r ''cases'' = Some c \<longrightarrow> py_float L c \<noteq> Inl OverflowError) \<longrightarrow>
          (\<exists>res. reconcile L a d = Inr res)) \<and>
         (\<forall>e. reconcile L a d = Inl e \<longrightarrow>
            (e = OverflowError \<and>
             (\<exists>r\<in>set (rows d). \<exists>c. r ''cases'' = Some c \<and> py_float L c = Inl OverflowError)) \<or>
            (\<exists>c. (e = MissingColumn c \<or> e = KeyError c) \<and>
                 (c \<in> set [''id'', ''std_account_name''] \<and> c \<notin> set (columns a) \<or>
                  c \<in> set [''std_account_name_for_lookup'', ''cases'', ''order_date'', ''sku''] \<and>
                  c \<notin> set (columns d)))) \<and>
         (''id'' \<notin> set (columns a) \<or> ''std_account_name'' \<notin> set (columns a) \<or>
          ''std_account_name_for_lookup'' \<notin> set (columns d) \<longrightarrow>
          (\<exists>c. \<forall>ra rd. reconcile L (a\<lparr>rows := ra\<rparr>) (d\<lparr>rows := rd\<rparr>) = Inl (MissingColumn c)))"
proof (intro conjI impI allI)
  assume cols: "set [''id'', ''std_account_name''] \<subseteq> set (columns a) \<and>
          set [''std_account_name_for_lookup'', ''cases'', ''order_date'', ''sku'']
            \<subseteq> set (columns d) \<and>
          (\<forall>r\<in>set (rows d). \<forall>c. r ''cases'' = Some c \<longrightarrow> py_float L c \<noteq> Inl OverflowError)"
  then have ca: "check_accounts a = None" and cd: "check_depletions d = None"
    by (simp_all add: check_accounts_def check_depletions_def)
  from cols have "''id'' \<in> set (columns a)" and "''std_account_name'' \<in> set (columns a)"
    by simp_all
  from wf_lookup_map [OF assms(1) this] obtain m where m: "lookup_map L a = Inr m"
    by blast
  have "\<exists>t. process_row L m init_state (ext L r) = Inr t" if r: "r \<in> set (rows d)" for r
  proof -
    from cols have in_d: "''std_account_name_for_lookup'' \<in> set (columns d)"
      "''cases'' \<in> set (columns d)" "''order_date'' \<in> set (columns d)"
      "''sku'' \<in> set (columns d)"
      by simp_all
    note has = in_d [THEN wf_rowD [OF assms(2) r]]
    from has(2) obtain c where c: "r ''cases'' = Some c" by blast
    with cols r have "py_float L c \<noteq> Inl OverflowError" by blast
    with c has show ?thesis by (intro process_row_total [where c = c])
  qed
  then have "\<forall>r\<in>set (map (ext L) (rows d)). \<exists>t. process_row L m init_state r = Inr t"
    by simp
  then obtain res where "process_rows L m init_state (map (ext L) (rows d)) = Inr res"
    using process_rows_ok_iff [of L m init_state "map (ext L) (rows d)"] by blast
  then show "\<exists>res. reconcile L a d = Inr res"
    by (simp add: reconcile_eq ca cd m)
next
  fix e assume fail: "reconcile L a d = Inl e"
  let ?absent = "\<exists>c. (e = MissingColumn c \<or> e = KeyError c) \<and>
                 (c \<in> set [''id'', ''std_account_name''] \<and> c \<notin> set (columns a) \<or>
                  c \<in> set [''std_account_name_for_lookup'', ''cases'', ''order_date'', ''sku''] \<and>
                  c \<notin> set (columns d))"
  let ?overflow = "e = OverflowError \<and>
             (\<exists>r\<in>set (rows d). \<exists>c. r ''cases'' = Some c \<and> py_float L c = Inl OverflowError)"
  show "?overflow \<or> ?absent"
  proof (cases "check_accounts a")
    case (Some e')
    with fail have "e' = e" by (simp add: reconcile_eq)
    with Some have ?absent by (auto simp: check_accounts_def split: if_splits)
    then show ?thesis ..
  next
    case None
    note ca = this
    then have ida: "''id'' \<in> set (columns a)" and na: "''std_account_name'' \<in> set (columns a)"
      by (simp_all add: check_accounts_def split: if_splits)
    show ?thesis
    proof (cases "check_depletions d")
      case (Some e')
      with fail ca have "e' = e" by (simp add: reconcile_eq)
      with Some have ?absent by (auto simp: check_depletions_def split: if_splits)
      then show ?thesis ..
    next
      case None
      then have lk: "''std_account_name_for_lookup'' \<in> set (columns d)"
        by (simp add: check_depletions_def split: if_splits)
      from wf_lookup_map [OF assms(1) ida na] obtain m where m: "lookup_map L a = Inr m"
        by blast
      from fail ca None m have "process_rows L m init_state (map (ext L) (rows d)) = Inl e"
        by (simp add: reconcile_eq)
      from process_rows_InlD [OF this] obtain r where r: "r \<in> set (rows d)"
        and re: "process_row L m init_state (ext L r) = Inl e"
        by auto
      from process_row_InlD [OF re wf_rowD [OF assms(2) r lk]]
      show ?thesis
      proof
        assume "e = OverflowError \<and> (\<exists>c. r ''cases'' = Some c \<and> py_float L c = Inl OverflowError)"
        with r have ?overflow by blast
        then show ?thesis ..
      next
        assume "\<exists>c\<in>set [''cases'', ''order_date'', ''sku'']. e = KeyError c \<and> r c = None"
        then obtain c where c: "c \<in> set [''cases'', ''order_date'', ''sku'']" "e = KeyError c"
          "r c = None"
          by blast
        from c(3) wf_rowD [OF assms(2) r, of c] have "c \<notin> set (columns d)" by blast
        with c(1,2) have ?absent by auto
        then show ?thesis ..
      qed
    qed
  qed
next
  assume absent: "''id'' \<notin> set (columns a) \<or> ''std_account_name'' \<notin> set (columns a) \<or>
          ''std_account_name_for_lookup'' \<notin> set (columns d)"
  show "\<exists>c. \<forall>ra rd. reconcile L (a\<lparr>rows := ra\<rparr>) (d\<lparr>rows := rd\<rparr>) = Inl (MissingColumn c)"
  proof (cases "''id'' \<in> set (columns a)")
    case False
    then have "reconcile L (a\<lparr>rows := ra\<rparr>) (d\<lparr>rows := rd\<rparr>) = Inl (MissingColumn ''id'')" for ra rd
      by (simp add: reconcile_def check_accounts_def)
    then show ?thesis by blast
  next
    case True
    note ida = this
    show ?thesis
    proof (cases "''std_account_name'' \<in> set (columns a)")
      case False
      with ida have "reconcile L (a\<lparr>rows := ra\<rparr>) (d\<lparr>rows := rd\<rparr>) =
          Inl (MissingColumn ''std_account_name'')" for ra rd
        by (simp add: reconcile_def check_accounts_def)
      then show ?thesis by blast
    next
      case True
      with ida absent have "reconcile L (a\<lparr>rows := ra\<rparr>) (d\<lparr>rows := rd\<rparr>) =
          Inl (MissingColumn ''std_account_name_for_lookup'')" for ra rd
        by (simp add: reconcile_def check_accounts_def check_depletions_def)
      then show ?thesis by blast
    qed
  qed
qed

text \<open>The depletions table has no \<open>cases\<close> column and passes the column checks; its first
  row, of an unknown name, is processed and recorded in the unmatched names; the loop
  then fails with a KeyError at the second row, which has an account.\<close>

theorem abort_after_row_was_processed:
  "check_accounts ex_accounts = None \<and> check_depletions ex_no_cases = None \<and>
   lookup_map demo_lib ex_accounts = Inr ex_map \<and>
   rows ex_no_cases = [unknown_nc, joes_nc] \<and>
   process_row demo_lib ex_map init_state (ext demo_lib unknown_nc) =
     Inr (init_state\<lparr>unmatched_account_names := {CStr ''Unknown Store''}\<rparr>) \<and>
   process_row demo_lib ex_map (init_state\<lparr>unmatched_account_names := {CStr ''Unknown Store''}\<rparr>)
     (ext demo_lib joes_nc) = Inl (KeyError ''cases'') \<and>
   reconcile demo_lib ex_accounts ex_no_cases = Inl (KeyError ''cases'')"
proof -
  have "check_accounts ex_accounts = None"
    by (simp add: check_accounts_def ex_accounts_def)
  moreover have "check_depletions ex_no_cases = None"
    by (simp add: check_depletions_def ex_no_cases_def)
  moreover have "rows ex_no_cases = [unknown_nc, joes_nc]" by (simp add: ex_no_cases_def)
  ultimately show ?thesis using ex_lookup_map ex_no_cases_eval(1,3,4) by blast
qed

theorem reconcile_fails_only_on_absent_column_witness:
  "wf_df ex_accounts \<and> wf_df ex_depletions \<and>
   set [''id'', ''std_account_name''] \<subseteq> set (columns ex_accounts) \<and>
   set [''std_account_name_for_lookup'', ''cases'', ''order_date'', ''sku'']
     \<subseteq> set (columns ex_depletions) \<and>
   list_all (\<lambda>r. \<exists>c. r ''cases'' = Some c \<and> py_float demo_lib c \<noteq> Inl OverflowError)
     (rows ex_depletions) \<and>
   (\<exists>res. reconcile demo_lib ex_accounts ex_depletions = Inr res) \<and>
   wf_df ex_no_id \<and> ''id'' \<notin> set (columns ex_no_id) \<and>
   (\<exists>c. reconcile demo_lib ex_no_id ex_depletions = Inl (MissingColumn c)) \<and>
   wf_df ex_no_cases \<and> reconcile demo_lib ex_accounts ex_no_cases = Inl (KeyError ''cases'') \<and>
   ''cases'' \<notin> set (columns ex_no_cases) \<and>
   wf_df ex_huge \<and> reconcile demo_lib ex_accounts ex_huge = Inl OverflowError \<and>
   huge_dep ''cases'' = Some (CInt (2 ^ 1024)) \<and>
   py_float demo_lib (CInt (2 ^ 1024)) = Inl OverflowError"
proof -
  note main1 = reconcile_fails_only_on_absent_column [OF ex_wf(1) ex_wf(2), of demo_lib]
  note main2 = reconcile_fails_only_on_absent_column [OF ex_wf(4) ex_wf(2), of demo_lib]
  have ca: "set [''id'', ''std_account_name''] \<subseteq> set (columns ex_accounts)"
    by (simp add: ex_accounts_def)
  have cd: "set [''std_account_name_for_lookup'', ''cases'', ''order_date'', ''sku'']
     \<subseteq> set (columns ex_depletions)"
    by (simp add: ex_depletions_def)
  have nov: "list_all (\<lambda>r. \<exists>c. r ''cases'' = Some c \<and> py_float demo_lib c \<noteq> Inl OverflowError)
     (rows ex_depletions)"
    by (simp add: ex_depletions_def row_defs demo_lib_def float_int_small)
  then have "\<forall>r\<in>set (rows ex_depletions). \<forall>c. r ''cases'' = Some c \<longrightarrow>
      py_float demo_lib c \<noteq> Inl OverflowError"
    by (auto simp: list_all_iff)
  with main1 ca cd have ok: "\<exists>res. reconcile demo_lib ex_accounts ex_depletions = Inr res"
    by blast
  have noid: "''id'' \<notin> set (columns ex_no_id)" by (simp add: ex_no_id_def)
  with main2 obtain c where
    "\<forall>ra rd. reconcile demo_lib (ex_no_id\<lparr>rows := ra\<rparr>) (ex_depletions\<lparr>rows := rd\<rparr>) =
       Inl (MissingColumn c)"
    by blast
  then have "reconcile demo_lib (ex_no_id\<lparr>rows := rows ex_no_id\<rparr>)
      (ex_depletions\<lparr>rows := rows ex_depletions\<rparr>) = Inl (MissingColumn c)"
    by blast
  then have fail: "\<exists>c. reconcile demo_lib ex_no_id ex_depletions = Inl (MissingColumn c)"
    by auto
  have nc: "''cases'' \<notin> set (columns ex_no_cases)" by (simp add: ex_no_cases_def)
  have hc: "huge_dep ''cases'' = Some (CInt (2 ^ 1024))" by (simp add: huge_dep_def depl_def)
  from ex_wf ex_huge_wf ca cd nov ok noid fail ex_no_cases_eval(1) nc ex_huge_eval hc
  show ?thesis by blast
qed

text \<open>
  Claim C6, as amended. Whenever the reconciliation returns, the matched output is made
  of the records appended row by row, and the record appended for a row has the
  \<open>order_date\<close> and the \<open>sku\<close> cell of that row as they stand, the float of its \<open>cases\<close>
  cell, and the identifier the dictionary holds for its normalised name. In the final
  table (steps 6 and 7) the identifier and the sku are the strings of these cells and the
  quantity is kept; the dates are those the date conversion gives for the column, and
  they are kept as they stand when the conversion raises. (As stated, for the table that
  is written, the claim fails: see the theorem after this one.)
\<close>

theorem matched_record_keeps_date_and_sku:
  assumes "reconcile L a d = Inr res"
  shows "matched_depletions_data res = concat (map (row_output L a d) (rows d)) \<and>
         (\<forall>r\<in>set (rows d). \<forall>x\<in>set (row_output L a d r).
            r ''order_date'' = Some (order_date x) \<and> r ''sku'' = Some (sku x) \<and>
            (\<exists>c v. r ''cases'' = Some c \<and> py_float L c = Inr v \<and> cases x = CFloat v) \<and>
            (\<exists>m k. lookup_map L a = Inr m \<and> lookup_key L r = Some k \<and>
                   m k = Some (account_id x))) \<and>
         (\<forall>final. finalize L (matched_depletions_data res) = Some final \<longrightarrow>
            (to_datetime_strftime L (map order_date (matched_depletions_data res)) = None \<longrightarrow>
               final = map (\<lambda>m. m\<lparr>account_id := CStr (astype_str L (account_id m)),
                                     sku := CStr (astype_str L (sku m))\<rparr>)
                         (matched_depletions_data res)) \<and>
            (\<forall>ds. to_datetime_strftime L (map order_date (matched_depletions_data res)) = Some ds \<and>
                  length ds = length (matched_depletions_data res) \<longrightarrow>
               map order_date final = ds \<and>
               map sku final =
                 map (\<lambda>m. CStr (astype_str L (sku m))) (matched_depletions_data res) \<and>
               map cases final = map cases (matched_depletions_data res) \<and>
               map account_id final =
                 map (\<lambda>m. CStr (astype_str L (account_id m))) (matched_depletions_data res)))"
proof -
  from reconcile_InrD [OF assms] obtain m where m: "lookup_map L a = Inr m" by blast
  have rowwise: "r ''order_date'' = Some (order_date x) \<and> r ''sku'' = Some (sku x) \<and>
            (\<exists>c v. r ''cases'' = Some c \<and> py_float L c = Inr v \<and> cases x = CFloat v) \<and>
            (\<exists>m k. lookup_map L a = Inr m \<and> lookup_key L r = Some k \<and>
                   m k = Some (account_id x))"
    if "r \<in> set (rows d)" and "x \<in> set (row_output L a d r)" for r x
    using row_output_memD [OF assms m that] m by blast
  let ?ms = "matched_depletions_data res"
  have fin: "(to_datetime_strftime L (map order_date ?ms) = None \<longrightarrow>
               final = map (\<lambda>m. m\<lparr>account_id := CStr (astype_str L (account_id m)),
                                     sku := CStr (astype_str L (sku m))\<rparr>) ?ms) \<and>
            (\<forall>ds. to_datetime_strftime L (map order_date ?ms) = Some ds \<and>
                  length ds = length ?ms \<longrightarrow>
               map order_date final = ds \<and>
               map sku final = map (\<lambda>m. CStr (astype_str L (sku m))) ?ms \<and>
               map cases final = map cases ?ms \<and>
               map account_id final = map (\<lambda>m. CStr (astype_str L (account_id m))) ?ms)"
    if f: "finalize L ?ms = Some final" for final
  proof (intro conjI impI allI)
    assume "to_datetime_strftime L (map order_date ?ms) = None"
    with f show "final = map (\<lambda>m. m\<lparr>account_id := CStr (astype_str L (account_id m)),
                                     sku := CStr (astype_str L (sku m))\<rparr>) ?ms"
      by (rule finalize_None)
  next
    fix ds
    assume "to_datetime_strftime L (map order_date ?ms) = Some ds \<and> length ds = length ?ms"
    then have t: "to_datetime_strftime L (map order_date ?ms) = Some ds"
      and l: "length ds = length ?ms"
      by simp_all
    from finalize_Some [OF f t l]
    show "map order_date final = ds"
      and "map sku final = map (\<lambda>m. CStr (astype_str L (sku m))) ?ms"
      and "map cases final = map cases ?ms"
      and "map account_id final = map (\<lambda>m. CStr (astype_str L (account_id m))) ?ms"
      by simp_all
  qed
  have rows: "\<forall>r\<in>set (rows d). \<forall>x\<in>set (row_output L a d r).
            r ''order_date'' = Some (order_date x) \<and> r ''sku'' = Some (sku x) \<and>
            (\<exists>c v. r ''cases'' = Some c \<and> py_float L c = Inr v \<and> cases x = CFloat v) \<and>
            (\<exists>m k. lookup_map L a = Inr m \<and> lookup_key L r = Some k \<and>
                   m k = Some (account_id x))"
    using rowwise by blast
  from fin have "\<forall>final. finalize L ?ms = Some final \<longrightarrow>
            (to_datetime_strftime L (map order_date ?ms) = None \<longrightarrow>
               final = map (\<lambda>m. m\<lparr>account_id := CStr (astype_str L (account_id m)),
                                     sku := CStr (astype_str L (sku m))\<rparr>) ?ms) \<and>
            (\<forall>ds. to_datetime_strftime L (map order_date ?ms) = Some ds \<and>
                  length ds = length ?ms \<longrightarrow>
               map order_date final = ds \<and>
               map sku final = map (\<lambda>m. CStr (astype_str L (sku m))) ?ms \<and>
               map cases final = map cases ?ms \<and>
               map account_id final = map (\<lambda>m. CStr (astype_str L (account_id m))) ?ms)"
    by (intro allI impI)
  with matched_concat [OF assms] rows show ?thesis by (intro conjI)
qed

text \<open>A depletion dated 04/01/2024, of sku 7: the record appended for it keeps both cells,
  and its row of the final table has the date 2024-04-01 and the sku as the string
  \<open>7\<close>.\<close>

theorem final_table_rewrites_date_and_sku:
  "reconcile us_lib ex_cafe_accounts ex_us_depletions = Inr us_result \<and>
   matched_depletions_data us_result = [us_out] \<and>
   finalize us_lib [us_out] = Some [us_final] \<and>
   us_dep ''order_date'' = Some (CStr ''04/01/2024'') \<and>
   order_date us_out = CStr ''04/01/2024'' \<and>
   order_date us_final = CStr ''2024-04-01'' \<and>
   us_dep ''sku'' = Some (CInt 7) \<and> sku us_out = CInt 7 \<and> sku us_final = CStr ''7''"
proof -
  have "matched_depletions_data us_result = [us_out]" by (simp add: us_result_def)
  moreover have "us_dep ''order_date'' = Some (CStr ''04/01/2024'')" by (simp add: us_dep_def)
  moreover have "us_dep ''sku'' = Some (CInt 7)" by (simp add: us_dep_def)
  moreover have "order_date us_out = CStr ''04/01/2024''" "sku us_out = CInt 7"
    by (simp_all add: us_out_def)
  moreover have "order_date us_final = CStr ''2024-04-01''" "sku us_final = CStr ''7''"
    by (simp_all add: us_final_def)
  ultimately show ?thesis using ex_us_reconcile ex_us_finalize by blast
qed

theorem matched_record_keeps_date_and_sku_witness:
  "reconcile us_lib ex_cafe_accounts ex_us_depletions = Inr us_result \<and>
   us_dep \<in> set (rows ex_us_depletions) \<and>
   row_output us_lib ex_cafe_accounts ex_us_depletions us_dep = [us_out] \<and>
   us_dep ''order_date'' = Some (order_date us_out) \<and>
   us_dep ''sku'' = Some (sku us_out) \<and>
   finalize us_lib (matched_depletions_data us_result) = Some [us_final] \<and>
   to_datetime_strftime us_lib (map order_date (matched_depletions_data us_result)) =
     Some [CStr ''2024-04-01''] \<and>
   length [CStr ''2024-04-01''] = length (matched_depletions_data us_result) \<and>
   map order_date [us_final] = [CStr ''2024-04-01''] \<and>
   map sku [us_final] =
     map (\<lambda>m. CStr (astype_str us_lib (sku m))) (matched_depletions_data us_result)"
proof -
  note main = matched_record_keeps_date_and_sku [OF ex_us_reconcile]
  have r: "us_dep \<in> set (rows ex_us_depletions)" by (simp add: ex_us_depletions_def)
  have x: "us_out \<in> set (row_output us_lib ex_cafe_accounts ex_us_depletions us_dep)"
    by (simp add: ex_us_row_output)
  from main r x have od: "us_dep ''order_date'' = Some (order_date us_out)"
    and sk: "us_dep ''sku'' = Some (sku us_out)"
    by blast+
  have f: "finalize us_lib (matched_depletions_data us_result) = Some [us_final]"
    using ex_us_finalize by (simp add: us_result_def)
  have t: "to_datetime_strftime us_lib (map order_date (matched_depletions_data us_result)) =
     Some [CStr ''2024-04-01'']"
    using ex_us_date by (simp add: us_result_def us_out_def)
  have l: "length [CStr ''2024-04-01''] = length (matched_depletions_data us_result)"
    by (simp add: us_result_def)
  from main f t l have "map order_date [us_final] = [CStr ''2024-04-01'']"
    and "map sku [us_final] =
     map (\<lambda>m. CStr (astype_str us_lib (sku m))) (matched_depletions_data us_result)"
    by blast+
  with ex_us_reconcile r ex_us_row_output od sk f t l show ?thesis by blast
qed

text \<open>
  Claim C7. Whenever the reconciliation returns, the number of matched records, the
  number of rows whose normalised name has no account (the rows with no entry in the
  dictionary, by \<open>has_account_iff\<close>), and the count of rows skipped for their quantity add
  up to the number of depletion rows.
\<close>

theorem every_row_has_one_outcome:
  assumes "reconcile L a d = Inr res"
  shows "length (matched_depletions_data res) +
         length (filter (\<lambda>r. \<not> has_account L a r) (rows d)) +
         skipped_due_to_invalid_cases res = length (rows d)"
proof -
  from reconcile_InrD [OF assms] obtain m where m: "lookup_map L a = Inr m"
    and pr: "process_rows L m init_state (map (ext L) (rows d)) = Inr res"
    by blast
  let ?o = "\<lambda>r. out1 L m (ext L r)"
  let ?f = "\<lambda>r. length (matched_depletions_data (?o r))"
  let ?g = "\<lambda>r. if \<not> has_account L a r then 1 else (0::nat)"
  let ?h = "\<lambda>r. skipped_due_to_invalid_cases (?o r)"
  have one: "?f r + ?g r + ?h r = 1" if r: "r \<in> set (rows d)" for r
  proof -
    from row_key [OF assms r] obtain k where k: "lookup_key L r = Some k" by blast
    show ?thesis
    proof (cases "m k")
      case None
      with has_account_iff [OF m k] have "\<not> has_account L a r" by simp
      with row_unmatched [OF assms m r k None] show ?thesis by (auto simp: init_state_def)
    next
      case (Some aid)
      with has_account_iff [OF m k] have h: "has_account L a r" by simp
      show ?thesis
      proof (cases "valid_quantity L r")
        case True
        with row_matched [OF assms m r k Some True] h show ?thesis
          by (auto simp: init_state_def)
      next
        case False
        with row_invalid [OF assms m r k Some False] h show ?thesis
          by (simp add: init_state_def)
      qed
    qed
  qed
  have "length (matched_depletions_data res) = sum_list (map ?f (rows d))"
    using process_rows_matched [OF pr]
    by (simp add: init_state_def length_concat comp_def)
  moreover have "length (filter (\<lambda>r. \<not> has_account L a r) (rows d)) = sum_list (map ?g (rows d))"
    by (simp only: sum_list_indicator)
  moreover have "skipped_due_to_invalid_cases res = sum_list (map ?h (rows d))"
    using process_rows_skipped [OF pr] by (simp add: init_state_def comp_def)
  moreover have "sum_list (map ?f (rows d)) + sum_list (map ?g (rows d)) + sum_list (map ?h (rows d))
      = sum_list (map (\<lambda>r. ?f r + ?g r + ?h r) (rows d))"
    by (simp add: sum_list_addf)
  moreover have "sum_list (map (\<lambda>r. ?f r + ?g r + ?h r) (rows d)) = length (rows d)"
    using one by (intro sum_list_const_one) blast
  ultimately show ?thesis by simp
qed

theorem every_row_has_one_outcome_witness:
  "reconcile demo_lib ex_accounts ex_depletions = Inr ex_result \<and>
   length (matched_depletions_data ex_result) = 2 \<and>
   filter (\<lambda>r. \<not> has_account demo_lib ex_accounts r) (rows ex_depletions) = [unknown_dep] \<and>
   skipped_due_to_invalid_cases ex_result = 3 \<and>
   length (rows ex_depletions) = 6 \<and>
   length (matched_depletions_data ex_result) +
     length (filter (\<lambda>r. \<not> has_account demo_lib ex_accounts r) (rows ex_depletions)) +
     skipped_due_to_invalid_cases ex_result = length (rows ex_depletions)"
proof -
  note main = every_row_has_one_outcome [OF ex_reconcile]
  have "length (matched_depletions_data ex_result) = 2" by (simp add: ex_result_def)
  moreover have "filter (\<lambda>r. \<not> has_account demo_lib ex_accounts r) (rows ex_depletions) = [unknown_dep]"
    by (simp add: ex_depletions_def ex_has_account)
  moreover have "skipped_due_to_invalid_cases ex_result = 3" by (simp add: ex_result_def)
  moreover have "length (rows ex_depletions) = 6" by (simp add: ex_depletions_def)
  ultimately show ?thesis using ex_reconcile main by blast
qed

text \<open>
  Claim C8. Two runs on the same inputs give the same matched output. The reconciliation
  changes the two tables it is given (each gets its match column); run again on the
  tables as a first run left them, it leaves the same tables and returns the same result,
  so the same matched records in the same order, which are those of \<open>reconcile\<close> on the
  tables as first given. And the script leaves its two input files as they are, so that a
  second run of the script reads the same tables, and leaves the same files as the
  first.
\<close>

theorem second_run_gives_same_matched:
  "snd (reconcile_inplace L (a, d)) = reconcile L a d \<and>
   reconcile_inplace L (fst (reconcile_inplace L (a, d))) = reconcile_inplace L (a, d) \<and>
   map_sum id matched_depletions_data
     (snd (reconcile_inplace L (fst (reconcile_inplace L (a, d))))) =
     map_sum id matched_depletions_data (reconcile L a d) \<and>
   merge_true_supabase_ids_with_depletions L fs ''accounts_with_supabase_ids.csv'' =
     fs ''accounts_with_supabase_ids.csv'' \<and>
   merge_true_supabase_ids_with_depletions L fs ''depletions_to_import.csv'' =
     fs ''depletions_to_import.csv'' \<and>
   merge_true_supabase_ids_with_depletions L (merge_true_supabase_ids_with_depletions L fs) =
     merge_true_supabase_ids_with_depletions L fs"
proof -
  have "map_sum id matched_depletions_data
     (snd (reconcile_inplace L (fst (reconcile_inplace L (a, d))))) =
     map_sum id matched_depletions_data (reconcile L a d)"
    by (simp only: reconcile_inplace_twice reconcile_inplace_result)
  with reconcile_inplace_result [of L a d] reconcile_inplace_twice [of L a d]
    files_after_second_run [of L fs]
  show ?thesis by (intro conjI) simp_all
qed

section \<open>The claims on the other two scripts\<close>

text \<open>
  Claim C9. Whenever the export is processed, the start date was parsed, the depletion
  rows are, in order, the rows of the month columns the table has, each taken with its
  index in the list of month columns (an absent column is skipped and still counted),
  and every row of the column of index \<open>i\<close> has for \<open>order_date\<close> the start date moved by
  \<open>30 * i\<close> days, written year-month-day. For the start date 2024-04-01 the column of
  index 2 is dated 2024-05-31, which is not 2024-06-01.
\<close>

theorem order_date_is_start_plus_30_days_per_index:
  assumes "process_vip_export df s cols = Inr (accounts_df, depletions_df)"
  shows "(\<exists>start. strptime s = Some start \<and>
            rows depletions_df =
              concat (map (dated_rows df start)
                (filter (\<lambda>ic. snd ic \<in> set (columns df)) (enumerate 0 cols))) \<and>
            (\<forall>ic\<in>set (enumerate 0 cols). \<forall>r\<in>set (dated_rows df start ic).
               \<exists>dt. add_days start (30 * fst ic) = Some dt \<and>
                    r ''order_date'' = Some (CStr (strftime dt)))) \<and>
         (\<exists>d0 d2. strptime ''2024-04-01'' = Some d0 \<and> add_days d0 (30 * 2) = Some d2 \<and>
            strftime d2 = ''2024-05-31'' \<and> strftime d2 \<noteq> ''2024-06-01'')"
proof -
  from assms obtain start frames where start: "strptime s = Some start"
    and un: "unpivot df start 0 cols = Inr frames"
    and dep: "depletions_df = \<lparr>columns = [''std_account_name_for_lookup'', ''cases'',
                                          ''order_date'', ''sku''],
                               rows = concat frames\<rparr>"
    by (auto simp: process_vip_export_def split: sum.splits option.splits if_splits)
  from dep unpivot_concat [OF un] have "rows depletions_df =
      concat (map (dated_rows df start)
        (filter (\<lambda>ic. snd ic \<in> set (columns df)) (enumerate 0 cols)))"
    by simp
  with start dated_rows_date [of _ df start]
  have first: "\<exists>start. strptime s = Some start \<and>
            rows depletions_df =
              concat (map (dated_rows df start)
                (filter (\<lambda>ic. snd ic \<in> set (columns df)) (enumerate 0 cols))) \<and>
            (\<forall>ic\<in>set (enumerate 0 cols). \<forall>r\<in>set (dated_rows df start ic).
               \<exists>dt. add_days start (30 * fst ic) = Some dt \<and>
                    r ''order_date'' = Some (CStr (strftime dt)))"
    by blast
  have "strftime \<lparr>year = 2024, month = 5, day = 31\<rparr> \<noteq> ''2024-06-01''"
    by (simp add: ex_strftime)
  with ex_strptime ex_add_days(3) ex_strftime(3)
  have "\<exists>d0 d2. strptime ''2024-04-01'' = Some d0 \<and> add_days d0 (30 * 2) = Some d2 \<and>
            strftime d2 = ''2024-05-31'' \<and> strftime d2 \<noteq> ''2024-06-01''"
    by blast
  with first show ?thesis by blast
qed

theorem order_date_is_start_plus_30_days_per_index_witness:
  "(\<exists>acc. process_vip_export ex_vip ''2024-04-01'' [''9L'', ''9L.1'', ''9L.2''] =
      Inr (acc, ex_vip_depletions)) \<and>
   strptime ''2024-04-01'' = Some \<lparr>year = 2024, month = 4, day = 1\<rparr> \<and>
   (2, ''9L.2'') \<in> set (enumerate 0 [''9L'', ''9L.1'', ''9L.2'']) \<and>
   vip_row (CInt 2) ''2024-05-31'' \<in> set (rows ex_vip_depletions) \<and>
   (\<exists>dt. add_days \<lparr>year = 2024, month = 4, day = 1\<rparr> (30 * 2) = Some dt \<and>
      vip_row (CInt 2) ''2024-05-31'' ''order_date'' = Some (CStr (strftime dt))) \<and>
   vip_row (CInt 2) ''2024-05-31'' ''order_date'' = Some (CStr ''2024-05-31'')"
proof -
  from ex_vip_run obtain acc where run:
    "process_vip_export ex_vip ''2024-04-01'' [''9L'', ''9L.1'', ''9L.2''] =
       Inr (acc, ex_vip_depletions)"
    by blast
  note main = order_date_is_start_plus_30_days_per_index [OF run]
  let ?d0 = "\<lparr>year = 2024, month = 4, day = 1\<rparr>"
  from main ex_strptime have all: "\<forall>ic\<in>set (enumerate 0 [''9L'', ''9L.1'', ''9L.2'']).
      \<forall>r\<in>set (dated_rows ex_vip ?d0 ic).
        \<exists>dt. add_days ?d0 (30 * fst ic) = Some dt \<and> r ''order_date'' = Some (CStr (strftime dt))"
    by auto
  have ic: "(2, ''9L.2'') \<in> set (enumerate 0 [''9L'', ''9L.1'', ''9L.2''])"
    by (simp add: enumerate_eq_zip upt_rec)
  have r: "vip_row (CInt 2) ''2024-05-31'' \<in> set (dated_rows ex_vip ?d0 (2, ''9L.2''))"
    by (subst ex_dated_rows) simp
  from all ic r have dt: "\<exists>dt. add_days ?d0 (30 * 2) = Some dt \<and>
      vip_row (CInt 2) ''2024-05-31'' ''order_date'' = Some (CStr (strftime dt))"
    by fastforce
  have mem: "vip_row (CInt 2) ''2024-05-31'' \<in> set (rows ex_vip_depletions)"
    by (simp add: ex_vip_depletions_def)
  have od: "vip_row (CInt 2) ''2024-05-31'' ''order_date'' = Some (CStr ''2024-05-31'')"
    by (simp add: vip_row_def)
  from ex_vip_run ex_strptime ic mem dt od show ?thesis by blast
qed

text \<open>
  Claim C10. The two joins are not equivalent. For an account \<open>Cafe\<close> and a depletion
  named \<open>cafe\<close>, the older join, which looks the name up as it stands, matches nothing
  and counts one skipped row, where the newer one emits the record. For a depletion of
  \<open>Cafe\<close> with quantity zero, the older join, which does not look at the quantity, emits
  the record with that quantity, where the newer one emits nothing and counts one
  invalid row. Both hold for every library.
\<close>

theorem joins_differ:
  "merge_account_ids_with_depletions ex_cafe_accounts ex_case_depletions =
     Inr \<lparr>matched_depletions = [], skipped_count = 1\<rparr> \<and>
   reconcile L ex_cafe_accounts ex_case_depletions =
     Inr \<lparr>matched_depletions_data = [cafe_out], unmatched_account_names = {},
          skipped_due_to_invalid_cases = 0\<rparr> \<and>
   merge_account_ids_with_depletions ex_cafe_accounts ex_zero_depletions =
     Inr \<lparr>matched_depletions =
            [\<lparr>account_id = CStr ''B1'', order_date = CStr ''2024-04-01'', cases = CInt 0,
              sku = CStr ''X''\<rparr>],
          skipped_count = 0\<rparr> \<and>
   reconcile L ex_cafe_accounts ex_zero_depletions =
     Inr \<lparr>matched_depletions_data = [], unmatched_account_names = {},
          skipped_due_to_invalid_cases = 1\<rparr>"
proof -
  have old1: "merge_account_ids_with_depletions ex_cafe_accounts ex_case_depletions =
     Inr \<lparr>matched_depletions = [], skipped_count = 1\<rparr>"
    by (simp add: merge_account_ids_with_depletions_def ex_cafe_accounts_def ex_case_depletions_def
        getcol_def getitem_def dict_def process_row1_def cafe_b1_def cafe_dep_def acct_def depl_def float_int_small)
  have old2: "merge_account_ids_with_depletions ex_cafe_accounts ex_zero_depletions =
     Inr \<lparr>matched_depletions =
            [\<lparr>account_id = CStr ''B1'', order_date = CStr ''2024-04-01'', cases = CInt 0,
              sku = CStr ''X''\<rparr>],
          skipped_count = 0\<rparr>"
    by (simp add: merge_account_ids_with_depletions_def ex_cafe_accounts_def ex_zero_depletions_def
        getcol_def getitem_def dict_def process_row1_def cafe_b1_def cafe_zero_def acct_def depl_def float_int_small)
  have new1: "reconcile L ex_cafe_accounts ex_case_depletions =
     Inr \<lparr>matched_depletions_data = [cafe_out], unmatched_account_names = {},
          skipped_due_to_invalid_cases = 0\<rparr>"
    by (simp add: ex_cafe_accounts_def ex_case_depletions_def cafe_out_def
        reconcile_def check_accounts_def check_depletions_def match_depletions_def
        add_match_col_def account_id_map_def getcol_def getitem_def dict_def process_row_def
        init_state_def normalize_name_def lower_def lower_char_def strip_def isspace_def
        cafe_b1_def cafe_dep_def acct_def depl_def float_int_small)
  have new2: "reconcile L ex_cafe_accounts ex_zero_depletions =
     Inr \<lparr>matched_depletions_data = [], unmatched_account_names = {},
          skipped_due_to_invalid_cases = 1\<rparr>"
    by (simp add: ex_cafe_accounts_def ex_zero_depletions_def
        reconcile_def check_accounts_def check_depletions_def match_depletions_def
        add_match_col_def account_id_map_def getcol_def getitem_def dict_def process_row_def
        init_state_def normalize_name_def lower_def lower_char_def strip_def isspace_def
        cafe_b1_def cafe_zero_def acct_def depl_def float_int_small)
  from old1 new1 old2 new2 show ?thesis by blast
qed

end
